theory Spec2Isabelle
  imports Main "HOL-Library.Word"
begin

section \<open>Go slices over an explicit memory\<close>

text \<open>
  The package \<^verbatim>\<open>dafi\<close> builds its values out of Go slices. A slice is a header
  (pointer to its first element, length, capacity) over a backing array that other
  headers may share, and the builders of \<^verbatim>\<open>filter.go\<close> write through the header
  before they append. The memory is therefore explicit: a flat store of cells, addressed
  by natural numbers, with \<open>brk\<close> the first address never handed out. An array is a
  run of consecutive cells; a header points at the cell of its element 0, so a header
  into the middle of an array is represented as well.
\<close>

record 'a mem =
  cells :: "nat \<Rightarrow> 'a"
  brk :: nat

record slice =
  ptr :: nat
  len :: nat
  cap :: nat

text \<open>The nil slice: the zero value of every slice type, and what \<^verbatim>\<open>Filters{}\<close>
  behaves as (length and capacity 0, no element is ever read or written through it).\<close>

definition nil_slice :: slice where
  "nil_slice = \<lparr>ptr = 0, len = 0, cap = 0\<rparr>"

text \<open>The elements a header denotes in a memory: \<^verbatim>\<open>s[0], ..., s[len(s)-1]\<close>.\<close>

definition elems :: "'a mem \<Rightarrow> slice \<Rightarrow> 'a list" where
  "elems m s = map (cells m) [ptr s ..< ptr s + len s]"

text \<open>Writing a run of values at consecutive addresses, all other cells kept.\<close>

definition store :: "'a mem \<Rightarrow> nat \<Rightarrow> 'a list \<Rightarrow> 'a mem" where
  "store m a xs =
     m\<lparr>cells := (\<lambda>i. if a \<le> i \<and> i < a + length xs then xs ! (i - a) else cells m i)\<rparr>"

text \<open>
  Allocation of a fresh array holding \<open>xs\<close> followed by \<open>extra\<close> zero-valued
  cells (Go zeroes what it allocates); the header returned has length \<open>length xs\<close>
  and capacity \<open>length xs + extra\<close>. \<open>z\<close> is the zero value of the element type.
\<close>

definition alloc :: "'a \<Rightarrow> 'a mem \<Rightarrow> 'a list \<Rightarrow> nat \<Rightarrow> slice \<times> 'a mem" where
  "alloc z m xs extra =
     (\<lparr>ptr = brk m, len = length xs, cap = length xs + extra\<rparr>,
      (store m (brk m) (xs @ replicate extra z))\<lparr>brk := brk m + length xs + extra\<rparr>)"

text \<open>
  Go's built-in \<^verbatim>\<open>append(s, xs...)\<close>, with the values \<open>xs\<close> already read from
  their source (the runtime copies with \<^verbatim>\<open>memmove\<close>). When the capacity suffices the
  new elements are written into the array of \<open>s\<close> and the header only grows; otherwise
  a new array is allocated, the old elements are copied and the old array is left as
  it is. How much spare capacity the runtime adds on growth is its own policy and not
  part of this repository, so it is the parameter \<open>slack\<close>, applied to the old
  capacity and the length needed.
\<close>

definition go_append ::
  "(nat \<Rightarrow> nat \<Rightarrow> nat) \<Rightarrow> 'a \<Rightarrow> 'a mem \<Rightarrow> slice \<Rightarrow> 'a list \<Rightarrow> slice \<times> 'a mem" where
  "go_append slack z m s xs =
     (if len s + length xs \<le> cap s
      then (s\<lparr>len := len s + length xs\<rparr>, store m (ptr s + len s) xs)
      else alloc z m (elems m s @ xs) (slack (cap s) (len s + length xs)))"

text \<open>
  A call with a variable number of arguments, \<^verbatim>\<open>f(x1, ..., xn)\<close>: Go passes a
  new slice over a new array of exactly the arguments, and the nil slice when there is
  none. (A call \<^verbatim>\<open>f(s...)\<close> passes the header \<open>s\<close> itself.)
\<close>

definition variadic :: "'a \<Rightarrow> 'a mem \<Rightarrow> 'a list \<Rightarrow> slice \<times> 'a mem" where
  "variadic z m xs = (if xs = [] then (nil_slice, m) else alloc z m xs 0)"

section \<open>filter.go\<close>

type_synonym FilterField = string
type_synonym FilterOperator = string
type_synonym FilterChainingKey = string

definition Equal :: FilterOperator where "Equal = ''eq''"
definition NotEqual :: FilterOperator where "NotEqual = ''ne''"
definition Greater :: FilterOperator where "Greater = ''gt''"
definition GreaterOrEqual :: FilterOperator where "GreaterOrEqual = ''gte''"
definition Less :: FilterOperator where "Less = ''lt''"
definition LessOrEqual :: FilterOperator where "LessOrEqual = ''lte''"
definition Like :: FilterOperator where "Like = ''like''"
definition In :: FilterOperator where "In = ''in''"
definition NotIn :: FilterOperator where "NotIn = ''nin''"
definition Contains :: FilterOperator where "Contains = ''contains''"
definition NotContains :: FilterOperator where "NotContains = ''ncontains''"
definition Is :: FilterOperator where "Is = ''is''"
definition IsNull :: FilterOperator where "IsNull = ''isnull''"
definition IsNot :: FilterOperator where "IsNot = ''isn''"
definition IsNotNull :: FilterOperator where "IsNotNull = ''isnnull''"
definition Default :: FilterOperator where "Default = ''default''"

definition And :: FilterChainingKey where "And = ''AND''"
definition Or :: FilterChainingKey where "Or = ''OR''"

text \<open>
  The struct \<^verbatim>\<open>Filter\<close>. \<^verbatim>\<open>FilterValue\<close> is \<^verbatim>\<open>any\<close>: \<open>None\<close> is the nil
  interface, \<open>Some v\<close> a value of a payload type left open. The two counters are Go
  \<^verbatim>\<open>int\<close>s; no function of the package computes with them, so they are integers.
  The field \<^verbatim>\<open>Field\<close> is named \<open>Field_name\<close> here (\<open>Field\<close> is the field of a
  relation in HOL).
\<close>

record 'v Filter =
  Module :: string
  IsGroupOpen :: bool
  GroupOpenQty :: int
  Field_name :: FilterField
  Operator :: FilterOperator
  Value :: "'v option"
  IsGroupClose :: bool
  GroupCloseQty :: int
  ChainingKey :: FilterChainingKey
  OverridePreviousFilterChainingKey :: FilterChainingKey

text \<open>The zero value of \<^verbatim>\<open>Filter\<close>.\<close>

definition zero_Filter :: "'v Filter" where
  "zero_Filter =
     \<lparr>Module = [], IsGroupOpen = False, GroupOpenQty = 0, Field_name = [], Operator = [],
      Value = None, IsGroupClose = False, GroupCloseQty = 0, ChainingKey = [],
      OverridePreviousFilterChainingKey = []\<rparr>"

text \<open>The composite literal \<^verbatim>\<open>Filter{Field: ..., Operator: ..., Value: ...}\<close>:
  every field it does not name has its zero value.\<close>

definition Filter_lit :: "string \<Rightarrow> FilterOperator \<Rightarrow> 'v option \<Rightarrow> 'v Filter" where
  "Filter_lit field operator v =
     zero_Filter\<lparr>Field_name := field, Operator := operator, Value := v\<rparr>"

text \<open>Assignments through an element of a slice, \<^verbatim>\<open>s[i].ChainingKey = k\<close> and its
  two siblings: one cell of the memory changes in one field. The index is always within
  the length of the slice where the builders use them (a guard on \<^verbatim>\<open>len\<close> comes
  first), so Go's bounds check cannot fail there.\<close>

definition set_ChainingKey ::
  "'v Filter mem \<Rightarrow> nat \<Rightarrow> FilterChainingKey \<Rightarrow> 'v Filter mem" where
  "set_ChainingKey m a k = m\<lparr>cells := (cells m)(a := (cells m a)\<lparr>ChainingKey := k\<rparr>)\<rparr>"

definition set_IsGroupOpen :: "'v Filter mem \<Rightarrow> nat \<Rightarrow> 'v Filter mem" where
  "set_IsGroupOpen m a = m\<lparr>cells := (cells m)(a := (cells m a)\<lparr>IsGroupOpen := True\<rparr>)\<rparr>"

definition set_IsGroupClose :: "'v Filter mem \<Rightarrow> nat \<Rightarrow> 'v Filter mem" where
  "set_IsGroupClose m a = m\<lparr>cells := (cells m)(a := (cells m a)\<lparr>IsGroupClose := True\<rparr>)\<rparr>"

definition Filters_IsZero :: "slice \<Rightarrow> bool" where
  "Filters_IsZero f = (len f = 0)"

definition FilterBy ::
  "'v Filter mem \<Rightarrow> string \<Rightarrow> FilterOperator \<Rightarrow> 'v option \<Rightarrow> slice \<times> 'v Filter mem" where
  "FilterBy m name operator v = alloc zero_Filter m [Filter_lit name operator v] 0"

definition Filters_Or ::
  "(nat \<Rightarrow> nat \<Rightarrow> nat) \<Rightarrow> 'v Filter mem \<Rightarrow> slice \<Rightarrow> string \<Rightarrow> FilterOperator \<Rightarrow> 'v option
     \<Rightarrow> slice \<times> 'v Filter mem" where
  "Filters_Or slack m f field operator v =
     (if Filters_IsZero f then alloc zero_Filter m [Filter_lit field operator v] 0
      else go_append slack zero_Filter (set_ChainingKey m (ptr f + (len f - 1)) Or) f
             [Filter_lit field operator v])"

definition Filters_And ::
  "(nat \<Rightarrow> nat \<Rightarrow> nat) \<Rightarrow> 'v Filter mem \<Rightarrow> slice \<Rightarrow> string \<Rightarrow> FilterOperator \<Rightarrow> 'v option
     \<Rightarrow> slice \<times> 'v Filter mem" where
  "Filters_And slack m f field operator v =
     (if Filters_IsZero f then alloc zero_Filter m [Filter_lit field operator v] 0
      else go_append slack zero_Filter (set_ChainingKey m (ptr f + (len f - 1)) And) f
             [Filter_lit field operator v])"

definition Filters_AndGroup ::
  "(nat \<Rightarrow> nat \<Rightarrow> nat) \<Rightarrow> 'v Filter mem \<Rightarrow> slice \<Rightarrow> slice \<Rightarrow> slice \<times> 'v Filter mem" where
  "Filters_AndGroup slack m f filters =
     (if len filters = 0 then (f, m)
      else
        let m1 = (if len f > 0 then set_ChainingKey m (ptr f + (len f - 1)) And else m);
            m2 = set_IsGroupOpen m1 (ptr filters + 0);
            m3 = set_IsGroupClose m2 (ptr filters + (len filters - 1))
        in go_append slack zero_Filter m3 f (elems m3 filters))"

definition Filters_OrGroup ::
  "(nat \<Rightarrow> nat \<Rightarrow> nat) \<Rightarrow> 'v Filter mem \<Rightarrow> slice \<Rightarrow> slice \<Rightarrow> slice \<times> 'v Filter mem" where
  "Filters_OrGroup slack m f filters =
     (if len filters = 0 then (f, m)
      else
        let m1 = (if len f > 0 then set_ChainingKey m (ptr f + (len f - 1)) Or else m);
            m2 = set_IsGroupOpen m1 (ptr filters + 0);
            m3 = set_IsGroupClose m2 (ptr filters + (len filters - 1))
        in go_append slack zero_Filter m3 f (elems m3 filters))"

text \<open>
  \<^verbatim>\<open>And\<close> and \<^verbatim>\<open>Or\<close> have the same body up to the connective, and so have
  \<^verbatim>\<open>AndGroup\<close> and \<^verbatim>\<open>OrGroup\<close>. The two common forms, with the connective as a
  parameter, are what the lemmas below are proved about; \<open>Filters_And_chain_with\<close>
  and its three siblings show that each builder is an instance.
\<close>

definition chain_with ::
  "FilterChainingKey \<Rightarrow> (nat \<Rightarrow> nat \<Rightarrow> nat) \<Rightarrow> 'v Filter mem \<Rightarrow> slice \<Rightarrow> 'v Filter
     \<Rightarrow> slice \<times> 'v Filter mem" where
  "chain_with k slack m f x =
     (if len f = 0 then alloc zero_Filter m [x] 0
      else go_append slack zero_Filter (set_ChainingKey m (ptr f + (len f - 1)) k) f [x])"

definition group_with ::
  "FilterChainingKey \<Rightarrow> (nat \<Rightarrow> nat \<Rightarrow> nat) \<Rightarrow> 'v Filter mem \<Rightarrow> slice \<Rightarrow> slice
     \<Rightarrow> slice \<times> 'v Filter mem" where
  "group_with k slack m f filters =
     (if len filters = 0 then (f, m)
      else
        let m1 = (if len f > 0 then set_ChainingKey m (ptr f + (len f - 1)) k else m);
            m2 = set_IsGroupOpen m1 (ptr filters);
            m3 = set_IsGroupClose m2 (ptr filters + (len filters - 1))
        in go_append slack zero_Filter m3 f (elems m3 filters))"

section \<open>pagination.go\<close>

text \<open>The two fields are \<^verbatim>\<open>uint\<close>s: unsigned machine words of the platform's
  width. The record is stated over the field type \<open>'u\<close>, which the functions below
  take to be \<open>'w word\<close> for the width \<open>'w\<close>.\<close>

record 'u Pagination =
  PageNumber :: 'u
  PageSize :: 'u

definition Pagination_IsZero :: "('w::len) word Pagination \<Rightarrow> bool" where
  "Pagination_IsZero p = (PageNumber p = 0 \<and> PageSize p = 0)"

definition HasPageNumber :: "('w::len) word Pagination \<Rightarrow> bool" where
  "HasPageNumber p = (PageNumber p > 0)"

definition HasPageSize :: "('w::len) word Pagination \<Rightarrow> bool" where
  "HasPageSize p = (PageSize p > 0)"

definition zero_Pagination :: "('w::len) word Pagination" where
  "zero_Pagination = \<lparr>PageNumber = 0, PageSize = 0\<rparr>"

section \<open>The criteria aggregate\<close>

text \<open>The struct \<^verbatim>\<open>Criteria\<close>: its slice fields are headers, its map a partial
  function (the nil map is the empty one).\<close>

record 'u Criteria =
  SelectColumns :: slice
  Joins :: slice
  Filters :: slice
  FiltersByModule :: "string \<rightharpoonup> slice"
  Sorts :: slice
  Pagination :: "'u Pagination"

definition New :: "('w::len) word Criteria" where
  "New = \<lparr>SelectColumns = nil_slice, Joins = nil_slice, Filters = nil_slice,
          FiltersByModule = Map.empty, Sorts = nil_slice, Pagination = zero_Pagination\<rparr>"

definition Select :: "'u Criteria \<Rightarrow> slice \<Rightarrow> 'u Criteria" where
  "Select c columns = c\<lparr>SelectColumns := columns\<rparr>"

text \<open>The call \<^verbatim>\<open>c.Select(x1, ..., xn)\<close> with its arguments written out: the
  arguments become a slice of strings, which \<open>Select\<close> stores.\<close>

definition Select_args ::
  "string mem \<Rightarrow> 'u Criteria \<Rightarrow> string list \<Rightarrow> 'u Criteria \<times> string mem" where
  "Select_args m c columns = (case variadic [] m columns of (s, m') \<Rightarrow> (Select c s, m'))"

section \<open>Programs of builder calls\<close>

text \<open>
  A sequence is \<^emph>\<open>built through the builders\<close> when a caller obtains it by a series of
  calls to \<^verbatim>\<open>FilterBy\<close>, \<^verbatim>\<open>And\<close>, \<^verbatim>\<open>Or\<close>, \<^verbatim>\<open>AndGroup\<close> and
  \<^verbatim>\<open>OrGroup\<close>. Such a caller is a straight-line program over variables of type
  \<^verbatim>\<open>Filters\<close>, numbered, each nil until it is assigned (Go's zero value, the empty
  sequence). Every statement assigns the result of one call to a variable; the
  receiver is a variable, so that a result can be extended more than once (branching)
  and a variable can be reassigned. The argument of a group call is either written out
  (\<^verbatim>\<open>AndGroup(x1, ..., xn)\<close>) or another variable spread (\<^verbatim>\<open>AndGroup(g...)\<close>).
\<close>

datatype 'v garg = Args "'v Filter list" | Spread nat

datatype 'v stmt =
    Let_FilterBy nat string FilterOperator "'v option"
  | Let_And nat nat string FilterOperator "'v option"
  | Let_Or nat nat string FilterOperator "'v option"
  | Let_AndGroup nat nat "'v garg"
  | Let_OrGroup nat nat "'v garg"

record 'v pstate =
  heap :: "'v Filter mem"
  vars :: "nat \<Rightarrow> slice"

definition init_state :: "'v pstate" where
  "init_state = \<lparr>heap = \<lparr>cells = (\<lambda>_. zero_Filter), brk = 0\<rparr>, vars = (\<lambda>_. nil_slice)\<rparr>"

definition assign :: "nat \<Rightarrow> 'v pstate \<Rightarrow> slice \<times> 'v Filter mem \<Rightarrow> 'v pstate" where
  "assign t st r = \<lparr>heap = snd r, vars = (vars st)(t := fst r)\<rparr>"

fun pass_garg :: "'v pstate \<Rightarrow> 'v garg \<Rightarrow> slice \<times> 'v Filter mem" where
  "pass_garg st (Args xs) = variadic zero_Filter (heap st) xs"
| "pass_garg st (Spread i) = (vars st i, heap st)"

fun exec :: "(nat \<Rightarrow> nat \<Rightarrow> nat) \<Rightarrow> 'v stmt \<Rightarrow> 'v pstate \<Rightarrow> 'v pstate" where
  "exec slack (Let_FilterBy t field operator v) st =
     assign t st (FilterBy (heap st) field operator v)"
| "exec slack (Let_And t r field operator v) st =
     assign t st (Filters_And slack (heap st) (vars st r) field operator v)"
| "exec slack (Let_Or t r field operator v) st =
     assign t st (Filters_Or slack (heap st) (vars st r) field operator v)"
| "exec slack (Let_AndGroup t r g) st =
     (case pass_garg st g of (a, m) \<Rightarrow> assign t st (Filters_AndGroup slack m (vars st r) a))"
| "exec slack (Let_OrGroup t r g) st =
     (case pass_garg st g of (a, m) \<Rightarrow> assign t st (Filters_OrGroup slack m (vars st r) a))"

definition run :: "(nat \<Rightarrow> nat \<Rightarrow> nat) \<Rightarrow> 'v stmt list \<Rightarrow> 'v pstate \<Rightarrow> 'v pstate" where
  "run slack prog st = fold (exec slack) prog st"

text \<open>The sequence a variable holds when the program has run from the initial state.\<close>

definition built :: "(nat \<Rightarrow> nat \<Rightarrow> nat) \<Rightarrow> 'v stmt list \<Rightarrow> nat \<Rightarrow> 'v Filter list" where
  "built slack prog x =
     elems (heap (run slack prog init_state)) (vars (run slack prog init_state) x)"

text \<open>A property of every predicate a program writes out as a group argument.\<close>

fun garg_all :: "('v Filter \<Rightarrow> bool) \<Rightarrow> 'v garg \<Rightarrow> bool" where
  "garg_all P (Args xs) = list_all P xs"
| "garg_all P (Spread i) = True"

fun stmt_all :: "('v Filter \<Rightarrow> bool) \<Rightarrow> 'v stmt \<Rightarrow> bool" where
  "stmt_all P (Let_AndGroup t r g) = garg_all P g"
| "stmt_all P (Let_OrGroup t r g) = garg_all P g"
| "stmt_all P s = True"

definition no_counters :: "'v Filter \<Rightarrow> bool" where
  "no_counters x = (GroupOpenQty x = 0 \<and> GroupCloseQty x = 0)"

definition no_override :: "'v Filter \<Rightarrow> bool" where
  "no_override x = (OverridePreviousFilterChainingKey x = [])"

text \<open>Erasing the annotation \<^verbatim>\<open>OverridePreviousFilterChainingKey\<close>: of a predicate,
  and of every predicate a program writes out.\<close>

definition erase_override :: "'v Filter \<Rightarrow> 'v Filter" where
  "erase_override x = x\<lparr>OverridePreviousFilterChainingKey := []\<rparr>"

definition erase_mem :: "'v Filter mem \<Rightarrow> 'v Filter mem" where
  "erase_mem m = m\<lparr>cells := (\<lambda>a. erase_override (cells m a))\<rparr>"

fun erase_garg :: "'v garg \<Rightarrow> 'v garg" where
  "erase_garg (Args xs) = Args (map erase_override xs)"
| "erase_garg (Spread i) = Spread i"

fun erase_stmt :: "'v stmt \<Rightarrow> 'v stmt" where
  "erase_stmt (Let_AndGroup t r g) = Let_AndGroup t r (erase_garg g)"
| "erase_stmt (Let_OrGroup t r g) = Let_OrGroup t r (erase_garg g)"
| "erase_stmt s = s"

section \<open>Group balance\<close>

text \<open>
  The well-formedness a renderer relies on, over the counters of a sequence: the
  group-open quantities sum to the group-close quantities, and the balance of opens
  minus closes, taken left to right (a token's opens stand before its predicate, its
  closes after), is never negative and is zero at the end.
\<close>

definition sum_open :: "'v Filter list \<Rightarrow> int" where
  "sum_open xs = sum_list (map GroupOpenQty xs)"

definition sum_close :: "'v Filter list \<Rightarrow> int" where
  "sum_close xs = sum_list (map GroupCloseQty xs)"

fun running_balance :: "int \<Rightarrow> 'v Filter list \<Rightarrow> bool" where
  "running_balance b [] = (b = 0)"
| "running_balance b (x # xs) =
     (0 \<le> b + GroupOpenQty x \<and> 0 \<le> b + GroupOpenQty x - GroupCloseQty x
      \<and> running_balance (b + GroupOpenQty x - GroupCloseQty x) xs)"

definition group_balanced :: "'v Filter list \<Rightarrow> bool" where
  "group_balanced xs = (sum_open xs = sum_close xs \<and> running_balance 0 xs)"

text \<open>
  The deepest nesting a renderer reaches when it walks a sequence once with a
  parenthesis counter and reads the two booleans: a token marked group-open raises the
  depth by one before its predicate, a token marked group-close lowers it by one after.
  \<open>d\<close> is the depth on entry.
\<close>

fun max_depth :: "nat \<Rightarrow> 'v Filter list \<Rightarrow> nat" where
  "max_depth d [] = 0"
| "max_depth d (x # xs) =
     (let d1 = (if IsGroupOpen x then d + 1 else d);
          d2 = (if IsGroupClose x then d1 - 1 else d1)
      in max d1 (max_depth d2 xs))"

section \<open>Reading and writing the memory\<close>

lemma length_elems [simp]: "length (elems m s) = len s"
  by (simp add: elems_def)

lemma nth_elems: "i < len s \<Longrightarrow> elems m s ! i = cells m (ptr s + i)"
  by (simp add: elems_def)

lemma elems_empty: "len s = 0 \<Longrightarrow> elems m s = []"
  by (simp add: elems_def)

lemma elems_alloc: "elems (snd (alloc z m xs e)) (fst (alloc z m xs e)) = xs"
  by (rule nth_equalityI) (simp_all add: elems_def store_def alloc_def nth_append)

lemma elems_alloc_other:
  "ptr s + len s \<le> brk m \<Longrightarrow> elems (snd (alloc z m xs e)) s = elems m s"
  by (rule nth_equalityI) (auto simp add: nth_elems alloc_def store_def)

lemma elems_variadic: "elems (snd (variadic z m xs)) (fst (variadic z m xs)) = xs"
  by (simp add: variadic_def elems_alloc) (simp add: elems_def nil_slice_def)

lemma elems_go_append:
  "elems (snd (go_append slack z m s xs)) (fst (go_append slack z m s xs)) = elems m s @ xs"
proof (cases "len s + length xs \<le> cap s")
  case True
  have "elems (store m (ptr s + len s) xs) (s\<lparr>len := len s + length xs\<rparr>) = elems m s @ xs"
    by (rule nth_equalityI) (auto simp add: elems_def store_def nth_append)
  with True show ?thesis by (simp add: go_append_def)
next
  case False
  then show ?thesis by (simp add: go_append_def elems_alloc)
qed

lemma brk_set_ChainingKey [simp]: "brk (set_ChainingKey m a k) = brk m"
  by (simp add: set_ChainingKey_def)

lemma elems_set_ChainingKey:
  "i < len s \<Longrightarrow>
   elems (set_ChainingKey m (ptr s + i) k) s = (elems m s)[i := (elems m s ! i)\<lparr>ChainingKey := k\<rparr>]"
  by (rule nth_equalityI) (auto simp add: nth_elems set_ChainingKey_def nth_list_update)

lemma elems_set_IsGroupOpen:
  "i < len s \<Longrightarrow>
   elems (set_IsGroupOpen m (ptr s + i)) s = (elems m s)[i := (elems m s ! i)\<lparr>IsGroupOpen := True\<rparr>]"
  by (rule nth_equalityI) (auto simp add: nth_elems set_IsGroupOpen_def nth_list_update)

lemma elems_set_IsGroupClose:
  "i < len s \<Longrightarrow>
   elems (set_IsGroupClose m (ptr s + i)) s = (elems m s)[i := (elems m s ! i)\<lparr>IsGroupClose := True\<rparr>]"
  by (rule nth_equalityI) (auto simp add: nth_elems set_IsGroupClose_def nth_list_update)

lemma elems_set_ChainingKey_other:
  "a < ptr s \<or> ptr s + len s \<le> a \<Longrightarrow> elems (set_ChainingKey m a k) s = elems m s"
  by (rule nth_equalityI) (auto simp add: nth_elems set_ChainingKey_def)

lemma elems_set_IsGroupOpen_other:
  "a < ptr s \<or> ptr s + len s \<le> a \<Longrightarrow> elems (set_IsGroupOpen m a) s = elems m s"
  by (rule nth_equalityI) (auto simp add: nth_elems set_IsGroupOpen_def)

lemma elems_set_IsGroupClose_other:
  "a < ptr s \<or> ptr s + len s \<le> a \<Longrightarrow> elems (set_IsGroupClose m a) s = elems m s"
  by (rule nth_equalityI) (auto simp add: nth_elems set_IsGroupClose_def)

section \<open>The builders as instances of the common forms\<close>

lemma Filters_And_chain_with:
  "Filters_And slack m f field operator v = chain_with And slack m f (Filter_lit field operator v)"
  by (simp add: Filters_And_def chain_with_def Filters_IsZero_def)

lemma Filters_Or_chain_with:
  "Filters_Or slack m f field operator v = chain_with Or slack m f (Filter_lit field operator v)"
  by (simp add: Filters_Or_def chain_with_def Filters_IsZero_def)

lemma Filters_AndGroup_group_with:
  "Filters_AndGroup slack m f filters = group_with And slack m f filters"
  by (simp add: Filters_AndGroup_def group_with_def)

lemma Filters_OrGroup_group_with:
  "Filters_OrGroup slack m f filters = group_with Or slack m f filters"
  by (simp add: Filters_OrGroup_def group_with_def)

lemma FilterBy_result:
  "FilterBy m field operator v = (a, m0) \<Longrightarrow>
   ptr a = brk m \<and> len a = 1 \<and> cap a = 1 \<and> brk m0 = brk m + 1
   \<and> elems m0 a = [Filter_lit field operator v]"
  using elems_alloc [of zero_Filter m "[Filter_lit field operator v]" 0]
  by (auto simp add: FilterBy_def alloc_def)

text \<open>The definitions that evaluate a program of builder calls on a concrete input.\<close>

lemmas ev = built_def run_def init_state_def assign_def FilterBy_def Filters_And_def Filters_Or_def
  Filters_AndGroup_def Filters_OrGroup_def Filters_IsZero_def go_append_def alloc_def store_def
  variadic_def nil_slice_def set_ChainingKey_def set_IsGroupOpen_def set_IsGroupClose_def
  elems_def Let_def

section \<open>Pagination and column selection\<close>

text \<open>
  Claim C7. The zero value of \<^verbatim>\<open>Pagination\<close> reports \<^verbatim>\<open>IsZero\<close> and neither a page
  number nor a page size. For every pagination, \<^verbatim>\<open>IsZero\<close> holds exactly when both
  fields are the number zero, \<^verbatim>\<open>HasPageNumber\<close> exactly when the page number is a
  positive number, and \<^verbatim>\<open>HasPageSize\<close> exactly when the page size is; the fields are
  read as the unsigned numbers they hold, at any word width.
\<close>

theorem Pagination_unset_semantics:
  fixes p :: "('w::len) word Pagination"
  shows "Pagination_IsZero (zero_Pagination :: 'w word Pagination)
    \<and> \<not> HasPageNumber (zero_Pagination :: 'w word Pagination)
    \<and> \<not> HasPageSize (zero_Pagination :: 'w word Pagination)
    \<and> (Pagination_IsZero p = (unat (PageNumber p) = 0 \<and> unat (PageSize p) = 0))
    \<and> (HasPageNumber p = (0 < unat (PageNumber p)))
    \<and> (HasPageSize p = (0 < unat (PageSize p)))"
  by (simp add: Pagination_IsZero_def HasPageNumber_def HasPageSize_def zero_Pagination_def
      unat_eq_0 word_greater_zero_iff unat_gt_0)

lemma Select_args_twice:
  "(case Select_args m c cols of (c1, m1) \<Rightarrow>
      case Select_args m1 c1 cols' of (c2, m2) \<Rightarrow> elems m2 (SelectColumns c2) = cols')"
proof -
  obtain s1 m1 where v1: "variadic [] m cols = (s1, m1)"
    by (cases "variadic [] m cols")
  obtain s2 m2 where v2: "variadic [] m1 cols' = (s2, m2)"
    by (cases "variadic [] m1 cols'")
  have "elems m2 s2 = cols'"
    using elems_variadic [of "[]" m1 cols'] v2 by simp
  then show ?thesis
    by (simp add: Select_args_def Select_def v1 v2)
qed

text \<open>
  Claim C8. \<^verbatim>\<open>Select\<close> replaces the selected columns: after two calls the criteria
  hold the header the second call was given, whatever the first stored; with the
  arguments written out, the columns read back are exactly those of the second call,
  for every criteria value and every two argument lists; and
  \<^verbatim>\<open>New().Select("a","b").Select("c")\<close> selects \<^verbatim>\<open>["c"]\<close>.
\<close>

theorem Select_last_call_wins:
  "SelectColumns (Select (Select c xs) ys) = ys
   \<and> (case Select_args m c cols1 of (c1, m1) \<Rightarrow>
        case Select_args m1 c1 cols2 of (c2, m2) \<Rightarrow> elems m2 (SelectColumns c2) = cols2)
   \<and> (case Select_args m New [''a'', ''b''] of (c1, m1) \<Rightarrow>
        case Select_args m1 c1 [''c''] of (c2, m2) \<Rightarrow> elems m2 (SelectColumns c2) = [''c''])"
  using Select_args_twice [where m = m and c = c and cols = cols1 and cols' = cols2]
    Select_args_twice [where m = m and c = New and cols = "[''a'', ''b'']" and cols' = "[''c'']"]
  by (simp add: Select_def)

section \<open>Chaining a single predicate\<close>

lemma elems_chain_with:
  assumes "0 < len f" and "chain_with k slack m f x = (r, m')"
  shows "elems m' r = (elems m f)[len f - 1 := (elems m f ! (len f - 1))\<lparr>ChainingKey := k\<rparr>] @ [x]"
proof -
  let ?m = "set_ChainingKey m (ptr f + (len f - 1)) k"
  have "go_append slack zero_Filter ?m f [x] = (r, m')"
    using assms by (simp add: chain_with_def)
  then have "elems m' r = elems ?m f @ [x]"
    using elems_go_append [of slack zero_Filter ?m f "[x]"] by simp
  then show ?thesis
    using elems_set_ChainingKey [of "len f - 1" f m k] assms(1) by simp
qed

text \<open>On a receiver without spare capacity the append allocates: the result is a new
  array, and every slice allocated before reads what it read after the assignment of the
  connective alone.\<close>

lemma chain_with_full:
  assumes "0 < len f" and "cap f \<le> len f" and "chain_with k slack m f x = (r, m')"
  shows "ptr r = brk m \<and> len r = len f + 1 \<and> ptr r + len r \<le> brk m'
     \<and> (\<forall>s. ptr s + len s \<le> brk m \<longrightarrow>
           elems m' s = elems (set_ChainingKey m (ptr f + (len f - 1)) k) s)"
proof -
  let ?m = "set_ChainingKey m (ptr f + (len f - 1)) k"
  have r: "alloc zero_Filter ?m (elems ?m f @ [x]) (slack (cap f) (len f + 1)) = (r, m')"
    using assms by (simp add: chain_with_def go_append_def)
  have 1: "ptr r = brk m \<and> len r = len f + 1 \<and> ptr r + len r \<le> brk m'"
    using r by (auto simp add: alloc_def)
  have 2: "elems m' s = elems ?m s" if "ptr s + len s \<le> brk m" for s
    using elems_alloc_other [of s ?m zero_Filter "elems ?m f @ [x]" "slack (cap f) (len f + 1)"]
      r that by simp
  show ?thesis using 1 2 by blast
qed

text \<open>
  Claim C5. On a receiver of length 0 (\<^verbatim>\<open>Filters{}\<close>, the nil slice, or any other
  empty header), \<^verbatim>\<open>Or\<close> and \<^verbatim>\<open>And\<close> return exactly what \<^verbatim>\<open>FilterBy\<close> returns
  for the same field, operator and value, header and memory alike: a sequence whose one
  element has the three given fields and the zero value in every other field, the
  chaining key included. The connective is stored nowhere.
\<close>

theorem empty_receiver_degrades_to_FilterBy:
  assumes "len f = 0"
  shows "Filters_Or slack m f field operator v = FilterBy m field operator v
    \<and> Filters_And slack m f field operator v = FilterBy m field operator v
    \<and> elems (snd (FilterBy m field operator v)) (fst (FilterBy m field operator v)) =
        [\<lparr>Module = [], IsGroupOpen = False, GroupOpenQty = 0, Field_name = field,
          Operator = operator, Value = v, IsGroupClose = False, GroupCloseQty = 0,
          ChainingKey = [], OverridePreviousFilterChainingKey = []\<rparr>]"
  using assms
  by (simp add: Filters_Or_def Filters_And_def Filters_IsZero_def FilterBy_def elems_alloc
      Filter_lit_def zero_Filter_def)

theorem empty_receiver_degrades_to_FilterBy_witness:
  "len nil_slice = 0
   \<and> Filters_Or (\<lambda>c n. 0) \<lparr>cells = (\<lambda>_. zero_Filter), brk = 0\<rparr> nil_slice ''x'' Equal (Some (1::int))
       = FilterBy \<lparr>cells = (\<lambda>_. zero_Filter), brk = 0\<rparr> ''x'' Equal (Some 1)
   \<and> elems (snd (Filters_Or (\<lambda>c n. 0) \<lparr>cells = (\<lambda>_. zero_Filter), brk = 0\<rparr> nil_slice
                    ''x'' Equal (Some (1::int))))
        (fst (Filters_Or (\<lambda>c n. 0) \<lparr>cells = (\<lambda>_. zero_Filter), brk = 0\<rparr> nil_slice
                    ''x'' Equal (Some (1::int))))
       = [\<lparr>Module = [], IsGroupOpen = False, GroupOpenQty = 0, Field_name = ''x'',
           Operator = ''eq'', Value = Some 1, IsGroupClose = False, GroupCloseQty = 0,
           ChainingKey = [], OverridePreviousFilterChainingKey = []\<rparr>]"
proof -
  have h: "len nil_slice = 0" by (simp add: nil_slice_def)
  show ?thesis
    using h empty_receiver_degrades_to_FilterBy [OF h, of "\<lambda>c n. 0"
        "\<lparr>cells = (\<lambda>_. zero_Filter), brk = 0\<rparr>" "''x''" Equal "Some (1::int)"]
    by (simp add: Equal_def)
qed

text \<open>
  Claim C6. \<^verbatim>\<open>AndGroup()\<close> and \<^verbatim>\<open>OrGroup()\<close>, called with no predicate, return the
  receiver's header and leave the memory as it was, so the sequence has the length and
  the elements it had, the chaining key of its last element included. The same holds
  when an empty slice is spread as the argument.
\<close>

theorem zero_group_is_noop:
  "(case variadic zero_Filter m [] of (a, m') \<Rightarrow> Filters_AndGroup slack m' f a) = (f, m)
   \<and> (case variadic zero_Filter m [] of (a, m') \<Rightarrow> Filters_OrGroup slack m' f a) = (f, m)
   \<and> Filters_AndGroup slack m f (a\<lparr>len := 0\<rparr>) = (f, m)
   \<and> Filters_OrGroup slack m f (a\<lparr>len := 0\<rparr>) = (f, m)"
  by (simp add: variadic_def nil_slice_def Filters_AndGroup_def Filters_OrGroup_def)

text \<open>
  Claim C3. For \<^verbatim>\<open>a = FilterBy(f1)\<close>, the sequence \<^verbatim>\<open>a.And(f2)\<close> has two elements:
  the first is the predicate of \<open>a\<close> with the chaining key AND, the second the new
  predicate, plain (no group mark, no chaining key). In general \<^verbatim>\<open>And\<close> and
  \<^verbatim>\<open>Or\<close> on a receiver that is not empty yield the receiver's elements, the last of
  them with its chaining key set to the connective, followed by the new plain predicate:
  the connective is on the token before the one it introduces.
\<close>

theorem chaining_placement:
  "(case FilterBy m f1 o1 v1 of (a, m0) \<Rightarrow>
      case Filters_And slack m0 a f2 o2 v2 of (r, m1) \<Rightarrow>
        len r = 2
        \<and> elems m1 r = [(Filter_lit f1 o1 v1)\<lparr>ChainingKey := And\<rparr>, Filter_lit f2 o2 v2]
        \<and> ChainingKey (elems m1 r ! 0) = And
        \<and> \<not> IsGroupOpen (elems m1 r ! 1) \<and> \<not> IsGroupClose (elems m1 r ! 1)
        \<and> ChainingKey (elems m1 r ! 1) = [])
   \<and> (0 < len f \<longrightarrow>
        (case Filters_And slack m f f2 o2 v2 of (r, m') \<Rightarrow>
           elems m' r = (elems m f)[len f - 1 := (elems m f ! (len f - 1))\<lparr>ChainingKey := And\<rparr>]
                          @ [Filter_lit f2 o2 v2])
        \<and> (case Filters_Or slack m f f2 o2 v2 of (r, m') \<Rightarrow>
           elems m' r = (elems m f)[len f - 1 := (elems m f ! (len f - 1))\<lparr>ChainingKey := Or\<rparr>]
                          @ [Filter_lit f2 o2 v2]))"
proof (intro conjI impI)
  show "case FilterBy m f1 o1 v1 of (a, m0) \<Rightarrow>
      case Filters_And slack m0 a f2 o2 v2 of (r, m1) \<Rightarrow>
        len r = 2
        \<and> elems m1 r = [(Filter_lit f1 o1 v1)\<lparr>ChainingKey := And\<rparr>, Filter_lit f2 o2 v2]
        \<and> ChainingKey (elems m1 r ! 0) = And
        \<and> \<not> IsGroupOpen (elems m1 r ! 1) \<and> \<not> IsGroupClose (elems m1 r ! 1)
        \<and> ChainingKey (elems m1 r ! 1) = []"
  proof -
    obtain a m0 where fb: "FilterBy m f1 o1 v1 = (a, m0)"
      by (cases "FilterBy m f1 o1 v1")
    obtain r m1 where an: "Filters_And slack m0 a f2 o2 v2 = (r, m1)"
      by (cases "Filters_And slack m0 a f2 o2 v2")
    note b = FilterBy_result [OF fb]
    have e: "elems m1 r = [(Filter_lit f1 o1 v1)\<lparr>ChainingKey := And\<rparr>, Filter_lit f2 o2 v2]"
      using elems_chain_with [of a And slack m0 "Filter_lit f2 o2 v2" r m1] an b
      by (simp add: Filters_And_chain_with)
    have "length (elems m1 r) = 2" by (simp add: e)
    then have l: "len r = 2" by simp
    show ?thesis
      by (simp add: fb an e l) (simp add: Filter_lit_def zero_Filter_def)
  qed
next
  assume "0 < len f"
  then show "case Filters_And slack m f f2 o2 v2 of (r, m') \<Rightarrow>
           elems m' r = (elems m f)[len f - 1 := (elems m f ! (len f - 1))\<lparr>ChainingKey := And\<rparr>]
                          @ [Filter_lit f2 o2 v2]"
    by (auto simp add: Filters_And_chain_with elems_chain_with)
next
  assume "0 < len f"
  then show "case Filters_Or slack m f f2 o2 v2 of (r, m') \<Rightarrow>
           elems m' r = (elems m f)[len f - 1 := (elems m f ! (len f - 1))\<lparr>ChainingKey := Or\<rparr>]
                          @ [Filter_lit f2 o2 v2]"
    by (auto simp add: Filters_Or_chain_with elems_chain_with)
qed

theorem chaining_placement_witness:
  "0 < len \<lparr>ptr = 0, len = 2, cap = 2\<rparr>
   \<and> (case Filters_Or (\<lambda>c n. 0)
          \<lparr>cells = (\<lambda>a. if a = 0 then (Filter_lit ''p'' Equal (Some (1::int)))\<lparr>ChainingKey := And\<rparr>
                          else if a = 1 then Filter_lit ''q'' Less (Some 2) else zero_Filter),
           brk = 2\<rparr>
          \<lparr>ptr = 0, len = 2, cap = 2\<rparr> ''r'' Greater (Some 3) of
        (r, m') \<Rightarrow>
          elems m' r = [(Filter_lit ''p'' Equal (Some 1))\<lparr>ChainingKey := And\<rparr>,
                        (Filter_lit ''q'' Less (Some 2))\<lparr>ChainingKey := Or\<rparr>,
                        Filter_lit ''r'' Greater (Some 3)])"
proof -
  let ?f = "\<lparr>ptr = 0, len = 2, cap = 2\<rparr>"
  let ?m = "\<lparr>cells = (\<lambda>a. if a = 0 then (Filter_lit ''p'' Equal (Some (1::int)))\<lparr>ChainingKey := And\<rparr>
                          else if a = 1 then Filter_lit ''q'' Less (Some 2) else zero_Filter),
           brk = 2\<rparr>"
  have h: "0 < len ?f" by simp
  have e: "elems ?m ?f = [(Filter_lit ''p'' Equal (Some 1))\<lparr>ChainingKey := And\<rparr>,
                          Filter_lit ''q'' Less (Some 2)]"
    by (rule nth_equalityI) (auto simp add: nth_elems less_Suc_eq numeral_2_eq_2)
  from chaining_placement [where f = ?f and m = ?m and slack = "\<lambda>c n. 0" and ?f2.0 = "''r''"
      and ?o2.0 = Greater and ?v2.0 = "Some 3", THEN conjunct2, rule_format, OF h, THEN conjunct2]
  show ?thesis
    unfolding e by (simp split: prod.splits)
qed

section \<open>Branching from a shared base\<close>

text \<open>Two builders called on the same base, first \<^verbatim>\<open>And\<close>, then \<^verbatim>\<open>Or\<close>. What the
  first branch reads afterwards depends on the capacity of the base alone.\<close>

lemma FilterBy_branches:
  "(case FilterBy m ''x'' Equal (Some (1::int)) of (base, m0) \<Rightarrow>
      case Filters_And slack m0 base ''y'' Equal (Some 2) of (b1, m1) \<Rightarrow>
        case Filters_Or slack m1 base ''z'' Equal (Some 3) of (b2, m2) \<Rightarrow>
          ChainingKey (elems m2 b1 ! 0) = And \<and> ChainingKey (elems m2 b2 ! 0) = Or
          \<and> elems m2 b1 = elems m1 b1
          \<and> elems m2 b1 = [(Filter_lit ''x'' Equal (Some 1))\<lparr>ChainingKey := And\<rparr>,
                             Filter_lit ''y'' Equal (Some 2)]
          \<and> elems m2 b2 = [(Filter_lit ''x'' Equal (Some 1))\<lparr>ChainingKey := Or\<rparr>,
                             Filter_lit ''z'' Equal (Some 3)])"
proof -
  obtain base m0 where fb: "FilterBy m ''x'' Equal (Some (1::int)) = (base, m0)"
    by (cases "FilterBy m ''x'' Equal (Some (1::int))")
  obtain b1 m1 where an: "Filters_And slack m0 base ''y'' Equal (Some 2) = (b1, m1)"
    by (cases "Filters_And slack m0 base ''y'' Equal (Some 2)")
  obtain b2 m2 where orr: "Filters_Or slack m1 base ''z'' Equal (Some 3) = (b2, m2)"
    by (cases "Filters_Or slack m1 base ''z'' Equal (Some 3)")
  note b = FilterBy_result [OF fb]
  let ?x = "Filter_lit ''x'' Equal (Some (1::int))"
  have an': "chain_with And slack m0 base (Filter_lit ''y'' Equal (Some 2)) = (b1, m1)"
    using an by (simp add: Filters_And_chain_with)
  have or': "chain_with Or slack m1 base (Filter_lit ''z'' Equal (Some 3)) = (b2, m2)"
    using orr by (simp add: Filters_Or_chain_with)
  have pos: "0 < len base" and full: "cap base \<le> len base"
    using b by simp_all
  note c1 = chain_with_full [OF pos full an']
  note c2 = chain_with_full [OF pos full or']
  have e1: "elems m1 b1 = [?x\<lparr>ChainingKey := And\<rparr>, Filter_lit ''y'' Equal (Some 2)]"
    using elems_chain_with [OF pos an'] b by simp
  have "elems m1 base = elems (set_ChainingKey m0 (ptr base + (len base - 1)) And) base"
    using c1 b by simp
  then have base1: "elems m1 base = [?x\<lparr>ChainingKey := And\<rparr>]"
    using elems_set_ChainingKey [of 0 base m0 And] b by simp
  have e2: "elems m2 b2 = [?x\<lparr>ChainingKey := Or\<rparr>, Filter_lit ''z'' Equal (Some 3)]"
    using elems_chain_with [OF pos or'] b base1 by simp
  have "elems m2 b1 = elems (set_ChainingKey m1 (ptr base + (len base - 1)) Or) b1"
    using c1 c2 b by simp
  also have "\<dots> = elems m1 b1"
    using c1 b by (intro elems_set_ChainingKey_other) simp
  finally have keep: "elems m2 b1 = elems m1 b1" .
  show ?thesis
    by (simp add: fb an orr keep e1 e2)
qed

text \<open>A base without spare capacity, allocated before the calls: each call copies the
  base to an array of its own, and the first branch is left as it was.\<close>

lemma branching_full_base:
  assumes pos: "0 < len base" and full: "cap base \<le> len base"
    and valid: "ptr base + len base \<le> brk m"
    and an: "Filters_And slack m base f1 o1 v1 = (b1, m1)"
    and orr: "Filters_Or slack m1 base f2 o2 v2 = (b2, m2)"
  shows "elems m2 b1 = elems m1 b1
    \<and> elems m2 b1 = (elems m base)[len base - 1 :=
                        (elems m base ! (len base - 1))\<lparr>ChainingKey := And\<rparr>]
                     @ [Filter_lit f1 o1 v1]
    \<and> elems m2 b2 = (elems m base)[len base - 1 :=
                        (elems m base ! (len base - 1))\<lparr>ChainingKey := Or\<rparr>]
                     @ [Filter_lit f2 o2 v2]"
proof -
  let ?a = "ptr base + (len base - 1)"
  have an': "chain_with And slack m base (Filter_lit f1 o1 v1) = (b1, m1)"
    using an by (simp add: Filters_And_chain_with)
  have or': "chain_with Or slack m1 base (Filter_lit f2 o2 v2) = (b2, m2)"
    using orr by (simp add: Filters_Or_chain_with)
  note c1 = chain_with_full [OF pos full an']
  note c2 = chain_with_full [OF pos full or']
  have e1: "elems m1 b1 = (elems m base)[len base - 1 :=
                        (elems m base ! (len base - 1))\<lparr>ChainingKey := And\<rparr>]
                     @ [Filter_lit f1 o1 v1]"
    by (rule elems_chain_with [OF pos an'])
  have "elems m1 base = elems (set_ChainingKey m ?a And) base"
    using c1 valid by simp
  then have base1: "elems m1 base = (elems m base)[len base - 1 :=
                        (elems m base ! (len base - 1))\<lparr>ChainingKey := And\<rparr>]"
    using elems_set_ChainingKey [of "len base - 1" base m And] pos by simp
  have e2: "elems m2 b2 = (elems m base)[len base - 1 :=
                        (elems m base ! (len base - 1))\<lparr>ChainingKey := Or\<rparr>]
                     @ [Filter_lit f2 o2 v2]"
    using elems_chain_with [OF pos or'] pos by (simp add: base1)
  have "brk m \<le> brk m1" using c1 by simp
  then have "elems m2 b1 = elems (set_ChainingKey m1 ?a Or) b1"
    using c1 c2 by simp
  also have "\<dots> = elems m1 b1"
  proof (rule elems_set_ChainingKey_other)
    have "?a < ptr base + len base" using pos by arith
    then show "?a < ptr b1 \<or> ptr b1 + len b1 \<le> ?a" using c1 valid by arith
  qed
  finally have keep: "elems m2 b1 = elems m1 b1" .
  show ?thesis using keep e1 e2 by simp
qed

text \<open>A base with spare capacity: both calls write the connective through the base and
  append in place, so the two results are the same header over the same cells, and the
  first branch reads what the second call wrote.\<close>

lemma branching_spare_base:
  assumes pos: "0 < len base" and spare: "len base < cap base"
    and an: "Filters_And slack m base f1 o1 v1 = (b1, m1)"
    and orr: "Filters_Or slack m1 base f2 o2 v2 = (b2, m2)"
  shows "b1 = b2
    \<and> elems m2 b1 = (elems m base)[len base - 1 :=
                        (elems m base ! (len base - 1))\<lparr>ChainingKey := Or\<rparr>]
                     @ [Filter_lit f2 o2 v2]"
proof -
  have an': "chain_with And slack m base (Filter_lit f1 o1 v1) = (b1, m1)"
    using an by (simp add: Filters_And_chain_with)
  have or': "chain_with Or slack m1 base (Filter_lit f2 o2 v2) = (b2, m2)"
    using orr by (simp add: Filters_Or_chain_with)
  have h1: "b1 = base\<lparr>len := len base + 1\<rparr>"
    using an' pos spare by (auto simp add: chain_with_def go_append_def)
  have h2: "b2 = base\<lparr>len := len base + 1\<rparr>"
    using or' pos spare by (auto simp add: chain_with_def go_append_def)
  have e1: "elems m1 b1 = (elems m base)[len base - 1 :=
                        (elems m base ! (len base - 1))\<lparr>ChainingKey := And\<rparr>]
                     @ [Filter_lit f1 o1 v1]"
    by (rule elems_chain_with [OF pos an'])
  have "elems m1 base = take (len base) (elems m1 b1)"
    by (rule nth_equalityI) (simp_all add: h1 nth_elems)
  then have base1: "elems m1 base = (elems m base)[len base - 1 :=
                        (elems m base ! (len base - 1))\<lparr>ChainingKey := And\<rparr>]"
    by (simp add: e1)
  have e2: "elems m2 b2 = (elems m base)[len base - 1 :=
                        (elems m base ! (len base - 1))\<lparr>ChainingKey := Or\<rparr>]
                     @ [Filter_lit f2 o2 v2]"
    using elems_chain_with [OF pos or'] pos by (simp add: base1)
  show ?thesis using h1 h2 e2 by simp
qed

text \<open>
  Claim C1, as the code has it. Branching is safe from a base without spare capacity.
  With \<^verbatim>\<open>base := FilterBy("x", Equal, 1)\<close>, whose array has capacity 1,
  \<^verbatim>\<open>b1 := base.And("y", Equal, 2)\<close> and then \<^verbatim>\<open>b2 := base.Or("z", Equal, 3)\<close>,
  read when all three calls have returned: the first element of \<open>b1\<close> has the chaining
  key AND and the first element of \<open>b2\<close> has OR, \<open>b1\<close> reads what it read before the
  call of \<^verbatim>\<open>Or\<close>, and each branch is the base predicate with its own connective
  followed by its own new predicate. More generally, for every base that is not empty,
  has its length equal to its capacity and was allocated before the calls, \<open>b1\<close> is
  the base with AND on its last element followed by the predicate of \<^verbatim>\<open>And\<close>, before
  and after the call of \<^verbatim>\<open>Or\<close>, and \<open>b2\<close> is the base with OR on its last element
  followed by the predicate of \<^verbatim>\<open>Or\<close>. This holds from every memory and for every
  growth policy of \<^verbatim>\<open>append\<close>.
\<close>

theorem branching_from_full_base:
  "(case FilterBy m ''x'' Equal (Some (1::int)) of (base, m0) \<Rightarrow>
      case Filters_And slack m0 base ''y'' Equal (Some 2) of (b1, m1) \<Rightarrow>
        case Filters_Or slack m1 base ''z'' Equal (Some 3) of (b2, m2) \<Rightarrow>
          ChainingKey (elems m2 b1 ! 0) = And \<and> ChainingKey (elems m2 b2 ! 0) = Or
          \<and> elems m2 b1 = elems m1 b1
          \<and> elems m2 b1 = [(Filter_lit ''x'' Equal (Some 1))\<lparr>ChainingKey := And\<rparr>,
                             Filter_lit ''y'' Equal (Some 2)]
          \<and> elems m2 b2 = [(Filter_lit ''x'' Equal (Some 1))\<lparr>ChainingKey := Or\<rparr>,
                             Filter_lit ''z'' Equal (Some 3)])
   \<and> (0 < len base \<and> cap base \<le> len base \<and> ptr base + len base \<le> brk m' \<longrightarrow>
        (case Filters_And slack m' base f1 o1 v1 of (b1, m1) \<Rightarrow>
          case Filters_Or slack m1 base f2 o2 v2 of (b2, m2) \<Rightarrow>
            elems m2 b1 = elems m1 b1
            \<and> elems m2 b1 = (elems m' base)[len base - 1 :=
                                (elems m' base ! (len base - 1))\<lparr>ChainingKey := And\<rparr>]
                             @ [Filter_lit f1 o1 v1]
            \<and> elems m2 b2 = (elems m' base)[len base - 1 :=
                                (elems m' base ! (len base - 1))\<lparr>ChainingKey := Or\<rparr>]
                             @ [Filter_lit f2 o2 v2]))"
proof (intro conjI impI)
  show "case FilterBy m ''x'' Equal (Some (1::int)) of (base, m0) \<Rightarrow>
      case Filters_And slack m0 base ''y'' Equal (Some 2) of (b1, m1) \<Rightarrow>
        case Filters_Or slack m1 base ''z'' Equal (Some 3) of (b2, m2) \<Rightarrow>
          ChainingKey (elems m2 b1 ! 0) = And \<and> ChainingKey (elems m2 b2 ! 0) = Or
          \<and> elems m2 b1 = elems m1 b1
          \<and> elems m2 b1 = [(Filter_lit ''x'' Equal (Some 1))\<lparr>ChainingKey := And\<rparr>,
                             Filter_lit ''y'' Equal (Some 2)]
          \<and> elems m2 b2 = [(Filter_lit ''x'' Equal (Some 1))\<lparr>ChainingKey := Or\<rparr>,
                             Filter_lit ''z'' Equal (Some 3)]"
    by (rule FilterBy_branches)
next
  assume h: "0 < len base \<and> cap base \<le> len base \<and> ptr base + len base \<le> brk m'"
  obtain b1 m1 where an: "Filters_And slack m' base f1 o1 v1 = (b1, m1)"
    by (cases "Filters_And slack m' base f1 o1 v1")
  obtain b2 m2 where orr: "Filters_Or slack m1 base f2 o2 v2 = (b2, m2)"
    by (cases "Filters_Or slack m1 base f2 o2 v2")
  show "case Filters_And slack m' base f1 o1 v1 of (b1, m1) \<Rightarrow>
          case Filters_Or slack m1 base f2 o2 v2 of (b2, m2) \<Rightarrow>
            elems m2 b1 = elems m1 b1
            \<and> elems m2 b1 = (elems m' base)[len base - 1 :=
                                (elems m' base ! (len base - 1))\<lparr>ChainingKey := And\<rparr>]
                             @ [Filter_lit f1 o1 v1]
            \<and> elems m2 b2 = (elems m' base)[len base - 1 :=
                                (elems m' base ! (len base - 1))\<lparr>ChainingKey := Or\<rparr>]
                             @ [Filter_lit f2 o2 v2]"
    unfolding an orr prod.case
    by (rule branching_full_base [OF _ _ _ an orr]) (simp_all add: h)
qed

theorem branching_from_full_base_witness:
  "0 < len \<lparr>ptr = 0, len = 2, cap = 2\<rparr> \<and> cap \<lparr>ptr = 0, len = 2, cap = 2\<rparr> \<le> len \<lparr>ptr = 0, len = 2, cap = 2\<rparr>
   \<and> ptr \<lparr>ptr = 0, len = 2, cap = 2\<rparr> + len \<lparr>ptr = 0, len = 2, cap = 2\<rparr> \<le> brk
          \<lparr>cells = (\<lambda>a. if a = 0 then (Filter_lit ''p'' Equal (Some (1::int)))\<lparr>ChainingKey := And\<rparr>
                          else if a = 1 then Filter_lit ''q'' Less (Some 2) else zero_Filter),
           brk = 2\<rparr>
   \<and> (case Filters_And (\<lambda>c n. 0)
          \<lparr>cells = (\<lambda>a. if a = 0 then (Filter_lit ''p'' Equal (Some (1::int)))\<lparr>ChainingKey := And\<rparr>
                          else if a = 1 then Filter_lit ''q'' Less (Some 2) else zero_Filter),
           brk = 2\<rparr>
          \<lparr>ptr = 0, len = 2, cap = 2\<rparr> ''y'' Equal (Some 3) of
        (b1, m1) \<Rightarrow>
          case Filters_Or (\<lambda>c n. 0) m1 \<lparr>ptr = 0, len = 2, cap = 2\<rparr> ''z'' Equal (Some 4) of
            (b2, m2) \<Rightarrow>
              elems m2 b1 = elems m1 b1
              \<and> elems m2 b1 = [(Filter_lit ''p'' Equal (Some 1))\<lparr>ChainingKey := And\<rparr>,
                                (Filter_lit ''q'' Less (Some 2))\<lparr>ChainingKey := And\<rparr>,
                                Filter_lit ''y'' Equal (Some 3)]
              \<and> elems m2 b2 = [(Filter_lit ''p'' Equal (Some 1))\<lparr>ChainingKey := And\<rparr>,
                                (Filter_lit ''q'' Less (Some 2))\<lparr>ChainingKey := Or\<rparr>,
                                Filter_lit ''z'' Equal (Some 4)])"
proof -
  let ?b = "\<lparr>ptr = 0, len = 2, cap = 2\<rparr>"
  let ?m = "\<lparr>cells = (\<lambda>a. if a = 0 then (Filter_lit ''p'' Equal (Some (1::int)))\<lparr>ChainingKey := And\<rparr>
                          else if a = 1 then Filter_lit ''q'' Less (Some 2) else zero_Filter),
           brk = 2\<rparr>"
  have h: "0 < len ?b \<and> cap ?b \<le> len ?b \<and> ptr ?b + len ?b \<le> brk ?m"
    by simp
  have e: "elems ?m ?b = [(Filter_lit ''p'' Equal (Some 1))\<lparr>ChainingKey := And\<rparr>,
                          Filter_lit ''q'' Less (Some 2)]"
    by (rule nth_equalityI) (auto simp add: nth_elems less_Suc_eq numeral_2_eq_2)
  from branching_from_full_base [where base = ?b and m' = ?m and slack = "\<lambda>c n. 0"
      and ?f1.0 = "''y''" and ?o1.0 = Equal and ?v1.0 = "Some 3"
      and ?f2.0 = "''z''" and ?o2.0 = Equal and ?v2.0 = "Some 4",
      THEN conjunct2, rule_format, OF h]
  show ?thesis
    unfolding e by (simp split: prod.splits)
qed

text \<open>
  Claim C1 as stated, for branching from any shared base, fails when the base has spare
  capacity. Under the doubling policy of Go's runtime for small slices,
  \<^verbatim>\<open>base := FilterBy("x", Equal, 1).And("y", Equal, 2).And("z", Equal, 3)\<close> has length 3
  and capacity 4. Then \<^verbatim>\<open>b1 := base.And("u", Equal, 4)\<close> and
  \<^verbatim>\<open>b2 := base.Or("w", Equal, 5)\<close> both append in place: before the second call \<open>b1\<close>
  ends with \<open>z\<close> AND \<open>u\<close>; after it \<open>b1\<close> reads exactly what \<open>b2\<close> reads, \<open>z\<close> OR
  \<open>w\<close>, and the connective \<open>b1\<close> set on the last element of the base is gone.
\<close>

theorem branching_with_spare_capacity:
  "built (\<lambda>c n. 2 * c - n)
     [Let_FilterBy 0 ''x'' Equal (Some (1::int)), Let_And 0 0 ''y'' Equal (Some 2),
      Let_And 0 0 ''z'' Equal (Some 3), Let_And 1 0 ''u'' Equal (Some 4)] 1
     = [(Filter_lit ''x'' Equal (Some 1))\<lparr>ChainingKey := And\<rparr>,
        (Filter_lit ''y'' Equal (Some 2))\<lparr>ChainingKey := And\<rparr>,
        (Filter_lit ''z'' Equal (Some 3))\<lparr>ChainingKey := And\<rparr>,
        Filter_lit ''u'' Equal (Some 4)]
   \<and> built (\<lambda>c n. 2 * c - n)
     [Let_FilterBy 0 ''x'' Equal (Some (1::int)), Let_And 0 0 ''y'' Equal (Some 2),
      Let_And 0 0 ''z'' Equal (Some 3), Let_And 1 0 ''u'' Equal (Some 4),
      Let_Or 2 0 ''w'' Equal (Some 5)] 1
     = [(Filter_lit ''x'' Equal (Some 1))\<lparr>ChainingKey := And\<rparr>,
        (Filter_lit ''y'' Equal (Some 2))\<lparr>ChainingKey := And\<rparr>,
        (Filter_lit ''z'' Equal (Some 3))\<lparr>ChainingKey := Or\<rparr>,
        Filter_lit ''w'' Equal (Some 5)]
   \<and> built (\<lambda>c n. 2 * c - n)
     [Let_FilterBy 0 ''x'' Equal (Some (1::int)), Let_And 0 0 ''y'' Equal (Some 2),
      Let_And 0 0 ''z'' Equal (Some 3), Let_And 1 0 ''u'' Equal (Some 4),
      Let_Or 2 0 ''w'' Equal (Some 5)] 2
     = [(Filter_lit ''x'' Equal (Some 1))\<lparr>ChainingKey := And\<rparr>,
        (Filter_lit ''y'' Equal (Some 2))\<lparr>ChainingKey := And\<rparr>,
        (Filter_lit ''z'' Equal (Some 3))\<lparr>ChainingKey := Or\<rparr>,
        Filter_lit ''w'' Equal (Some 5)]
   \<and> ChainingKey (built (\<lambda>c n. 2 * c - n)
     [Let_FilterBy 0 ''x'' Equal (Some (1::int)), Let_And 0 0 ''y'' Equal (Some 2),
      Let_And 0 0 ''z'' Equal (Some 3), Let_And 1 0 ''u'' Equal (Some 4),
      Let_Or 2 0 ''w'' Equal (Some 5)] 1 ! 2) \<noteq> And"
  by (simp add: ev upt_rec And_def Or_def)

section \<open>Wrapping a group\<close>

lemma elems_group_with:
  assumes n: "0 < len f" and g: "0 < len filters"
    and dis: "ptr f + len f \<le> ptr filters \<or> ptr filters + len filters \<le> ptr f"
    and res: "group_with k slack m f filters = (r, m')"
  shows "elems m' r =
      (elems m f)[len f - 1 := (elems m f ! (len f - 1))\<lparr>ChainingKey := k\<rparr>]
      @ (let X1 = (elems m filters)[0 := (elems m filters ! 0)\<lparr>IsGroupOpen := True\<rparr>]
         in X1[len filters - 1 := (X1 ! (len filters - 1))\<lparr>IsGroupClose := True\<rparr>])"
proof -
  let ?m1 = "set_ChainingKey m (ptr f + (len f - 1)) k"
  let ?m2 = "set_IsGroupOpen ?m1 (ptr filters)"
  let ?m3 = "set_IsGroupClose ?m2 (ptr filters + (len filters - 1))"
  have r: "go_append slack zero_Filter ?m3 f (elems ?m3 filters) = (r, m')"
    using res n g by (simp add: group_with_def Let_def)
  have f1: "elems ?m1 f = (elems m f)[len f - 1 := (elems m f ! (len f - 1))\<lparr>ChainingKey := k\<rparr>]"
    using elems_set_ChainingKey [of "len f - 1" f m k] n by simp
  have f2: "elems ?m2 f = elems ?m1 f"
    using dis g by (intro elems_set_IsGroupOpen_other) auto
  have f3: "elems ?m3 f = elems ?m2 f"
    using dis g by (intro elems_set_IsGroupClose_other) auto
  have x1: "elems ?m1 filters = elems m filters"
    using dis n by (intro elems_set_ChainingKey_other) auto
  have x2: "elems ?m2 filters =
      (elems ?m1 filters)[0 := (elems ?m1 filters ! 0)\<lparr>IsGroupOpen := True\<rparr>]"
    using elems_set_IsGroupOpen [of 0 filters ?m1] g by simp
  have x3: "elems ?m3 filters =
      (elems ?m2 filters)[len filters - 1 :=
         (elems ?m2 filters ! (len filters - 1))\<lparr>IsGroupClose := True\<rparr>]"
    using elems_set_IsGroupClose [of "len filters - 1" filters ?m2] g by simp
  have "elems m' r = elems ?m3 f @ elems ?m3 filters"
    using elems_go_append [of slack zero_Filter ?m3 f "elems ?m3 filters"] r by simp
  then show ?thesis
    by (simp only: f3 f2 f1 x3 x2 x1 Let_def)
qed

lemma variadic_result:
  "xs \<noteq> [] \<Longrightarrow> variadic z m xs = (a, m') \<Longrightarrow>
   ptr a = brk m \<and> len a = length xs \<and> elems m' a = xs
   \<and> (\<forall>s. ptr s + len s \<le> brk m \<longrightarrow> elems m' s = elems m s)"
proof -
  assume ne: "xs \<noteq> []" and v: "variadic z m xs = (a, m')"
  have al: "alloc z m xs 0 = (a, m')"
    using ne v by (simp add: variadic_def)
  have 1: "ptr a = brk m \<and> len a = length xs"
    using al by (auto simp add: alloc_def)
  have 2: "elems m' a = xs"
    using elems_alloc [of z m xs 0] al by simp
  have 3: "elems m' s = elems m s" if "ptr s + len s \<le> brk m" for s
    using elems_alloc_other [of s m z xs 0] al that by simp
  show ?thesis using 1 2 3 by blast
qed

lemma setters_keep:
  "Field_name (cells (set_ChainingKey m a k) b) = Field_name (cells m b)"
  "Operator (cells (set_ChainingKey m a k) b) = Operator (cells m b)"
  "Value (cells (set_ChainingKey m a k) b) = Value (cells m b)"
  "Field_name (cells (set_IsGroupOpen m a) b) = Field_name (cells m b)"
  "Operator (cells (set_IsGroupOpen m a) b) = Operator (cells m b)"
  "Value (cells (set_IsGroupOpen m a) b) = Value (cells m b)"
  "Field_name (cells (set_IsGroupClose m a) b) = Field_name (cells m b)"
  "Operator (cells (set_IsGroupClose m a) b) = Operator (cells m b)"
  "Value (cells (set_IsGroupClose m a) b) = Value (cells m b)"
  by (simp_all add: set_ChainingKey_def set_IsGroupOpen_def set_IsGroupClose_def)

lemma group_with_marks:
  assumes n: "0 < len f" and g: "0 < len filters"
    and res: "group_with k slack m f filters = (r, m')"
  shows "len r = len f + len filters
     \<and> ChainingKey (elems m' r ! (len f - 1)) = k
     \<and> IsGroupOpen (elems m' r ! len f)
     \<and> IsGroupClose (elems m' r ! (len f + len filters - 1))
     \<and> map Field_name (elems m' r) = map Field_name (elems m f @ elems m filters)
     \<and> map Operator (elems m' r) = map Operator (elems m f @ elems m filters)
     \<and> map Value (elems m' r) = map Value (elems m f @ elems m filters)"
proof -
  let ?m1 = "set_ChainingKey m (ptr f + (len f - 1)) k"
  let ?m2 = "set_IsGroupOpen ?m1 (ptr filters)"
  let ?m3 = "set_IsGroupClose ?m2 (ptr filters + (len filters - 1))"
  have r: "go_append slack zero_Filter ?m3 f (elems ?m3 filters) = (r, m')"
    using res n g by (simp add: group_with_def Let_def)
  have e: "elems m' r = elems ?m3 f @ elems ?m3 filters"
    using elems_go_append [of slack zero_Filter ?m3 f "elems ?m3 filters"] r by simp
  have l: "len r = len f + len filters"
    using arg_cong [OF e, of length] by simp
  have ck: "ChainingKey (cells ?m3 (ptr f + (len f - 1))) = k"
    by (simp add: set_ChainingKey_def set_IsGroupOpen_def set_IsGroupClose_def)
  have op: "IsGroupOpen (cells ?m3 (ptr filters))"
    by (simp add: set_ChainingKey_def set_IsGroupOpen_def set_IsGroupClose_def)
  have cl: "IsGroupClose (cells ?m3 (ptr filters + (len filters - 1)))"
    by (simp add: set_ChainingKey_def set_IsGroupOpen_def set_IsGroupClose_def)
  have 1: "ChainingKey (elems m' r ! (len f - 1)) = k"
    using ck n by (simp add: e nth_append nth_elems)
  have 2: "IsGroupOpen (elems m' r ! len f)"
    using op g by (simp add: e nth_append nth_elems)
  have idx: "len f + len filters - 1 = len f + (len filters - 1)"
    using g by simp
  have "elems m' r ! (len f + (len filters - 1)) = elems ?m3 filters ! (len filters - 1)"
    unfolding e
    using nth_append_length_plus [of "elems ?m3 f" "elems ?m3 filters" "len filters - 1"]
    by simp
  then have 3: "IsGroupClose (elems m' r ! (len f + len filters - 1))"
    unfolding idx using cl g nth_elems [of "len filters - 1" filters ?m3] by simp
  have 4: "map Field_name (elems m' r) = map Field_name (elems m f @ elems m filters)"
    "map Operator (elems m' r) = map Operator (elems m f @ elems m filters)"
    "map Value (elems m' r) = map Value (elems m f @ elems m filters)"
    unfolding e by (simp_all add: elems_def setters_keep)
  show ?thesis using l 1 2 3 4 by blast
qed

text \<open>
  Claim C4. \<^verbatim>\<open>FilterBy("a", Equal, 1).AndGroup(Filter{Field: "b", Operator: Equal,
  Value: 2}, Filter{Field: "c", Operator: Equal, Value: 3})\<close> is the three-element
  sequence of \<open>a\<close> with the chaining key AND, \<open>b\<close> marked group-open and \<open>c\<close> marked
  group-close. In general, on a receiver and a supplied slice that are not empty,
  \<^verbatim>\<open>AndGroup\<close> and \<^verbatim>\<open>OrGroup\<close> return a sequence as long as the two together, in
  which the receiver's last position carries the connective, the first supplied position
  is marked group-open, the last supplied position is marked group-close, and the fields,
  operators and values are those of the receiver followed by those of the supplied block,
  in order. When moreover the two slices do not overlap in memory (as when the predicates
  are written out in the call), the result is exactly the receiver's elements, the last
  with its chaining key set, followed by the supplied predicates, the first marked
  group-open and the last group-close, nothing else changed.
\<close>

theorem group_wrapping:
  "(case FilterBy m ''a'' Equal (Some (1::int)) of (a, m0) \<Rightarrow>
      case variadic zero_Filter m0
             [Filter_lit ''b'' Equal (Some 2), Filter_lit ''c'' Equal (Some 3)] of (args, m1) \<Rightarrow>
        case Filters_AndGroup slack m1 a args of (r, m2) \<Rightarrow>
          len r = 3
          \<and> elems m2 r = [(Filter_lit ''a'' Equal (Some 1))\<lparr>ChainingKey := And\<rparr>,
                          (Filter_lit ''b'' Equal (Some 2))\<lparr>IsGroupOpen := True\<rparr>,
                          (Filter_lit ''c'' Equal (Some 3))\<lparr>IsGroupClose := True\<rparr>])
   \<and> (0 < len f \<and> 0 < len filters \<longrightarrow>
        (case Filters_AndGroup slack m' f filters of (r, m'') \<Rightarrow>
           len r = len f + len filters
           \<and> ChainingKey (elems m'' r ! (len f - 1)) = And
           \<and> IsGroupOpen (elems m'' r ! len f)
           \<and> IsGroupClose (elems m'' r ! (len f + len filters - 1))
           \<and> map Field_name (elems m'' r) = map Field_name (elems m' f @ elems m' filters)
           \<and> map Operator (elems m'' r) = map Operator (elems m' f @ elems m' filters)
           \<and> map Value (elems m'' r) = map Value (elems m' f @ elems m' filters))
        \<and> (case Filters_OrGroup slack m' f filters of (r, m'') \<Rightarrow>
           len r = len f + len filters
           \<and> ChainingKey (elems m'' r ! (len f - 1)) = Or
           \<and> IsGroupOpen (elems m'' r ! len f)
           \<and> IsGroupClose (elems m'' r ! (len f + len filters - 1))
           \<and> map Field_name (elems m'' r) = map Field_name (elems m' f @ elems m' filters)
           \<and> map Operator (elems m'' r) = map Operator (elems m' f @ elems m' filters)
           \<and> map Value (elems m'' r) = map Value (elems m' f @ elems m' filters)))
   \<and> (0 < len f \<and> 0 < len filters
        \<and> (ptr f + len f \<le> ptr filters \<or> ptr filters + len filters \<le> ptr f) \<longrightarrow>
        (case Filters_AndGroup slack m' f filters of (r, m'') \<Rightarrow>
           elems m'' r =
             (elems m' f)[len f - 1 := (elems m' f ! (len f - 1))\<lparr>ChainingKey := And\<rparr>]
             @ (let X1 = (elems m' filters)[0 := (elems m' filters ! 0)\<lparr>IsGroupOpen := True\<rparr>]
                in X1[len filters - 1 := (X1 ! (len filters - 1))\<lparr>IsGroupClose := True\<rparr>]))
        \<and> (case Filters_OrGroup slack m' f filters of (r, m'') \<Rightarrow>
           elems m'' r =
             (elems m' f)[len f - 1 := (elems m' f ! (len f - 1))\<lparr>ChainingKey := Or\<rparr>]
             @ (let X1 = (elems m' filters)[0 := (elems m' filters ! 0)\<lparr>IsGroupOpen := True\<rparr>]
                in X1[len filters - 1 := (X1 ! (len filters - 1))\<lparr>IsGroupClose := True\<rparr>])))"
proof (intro conjI impI)
  show "case FilterBy m ''a'' Equal (Some (1::int)) of (a, m0) \<Rightarrow>
      case variadic zero_Filter m0
             [Filter_lit ''b'' Equal (Some 2), Filter_lit ''c'' Equal (Some 3)] of (args, m1) \<Rightarrow>
        case Filters_AndGroup slack m1 a args of (r, m2) \<Rightarrow>
          len r = 3
          \<and> elems m2 r = [(Filter_lit ''a'' Equal (Some 1))\<lparr>ChainingKey := And\<rparr>,
                          (Filter_lit ''b'' Equal (Some 2))\<lparr>IsGroupOpen := True\<rparr>,
                          (Filter_lit ''c'' Equal (Some 3))\<lparr>IsGroupClose := True\<rparr>]"
  proof -
    let ?bc = "[Filter_lit ''b'' Equal (Some (2::int)), Filter_lit ''c'' Equal (Some 3)]"
    obtain a m0 where fb: "FilterBy m ''a'' Equal (Some (1::int)) = (a, m0)"
      by (cases "FilterBy m ''a'' Equal (Some (1::int))")
    obtain args m1 where va: "variadic zero_Filter m0 ?bc = (args, m1)"
      by (cases "variadic zero_Filter m0 ?bc")
    obtain r m2 where ag: "Filters_AndGroup slack m1 a args = (r, m2)"
      by (cases "Filters_AndGroup slack m1 a args")
    note b = FilterBy_result [OF fb]
    have v: "ptr args = brk m0 \<and> len args = 2 \<and> elems m1 args = ?bc
        \<and> (\<forall>s. ptr s + len s \<le> brk m0 \<longrightarrow> elems m1 s = elems m0 s)"
      using variadic_result [OF _ va] by simp
    have a1: "elems m1 a = [Filter_lit ''a'' Equal (Some 1)]"
      using v b by simp
    have e: "elems m2 r = [(Filter_lit ''a'' Equal (Some 1))\<lparr>ChainingKey := And\<rparr>,
                          (Filter_lit ''b'' Equal (Some 2))\<lparr>IsGroupOpen := True\<rparr>,
                          (Filter_lit ''c'' Equal (Some 3))\<lparr>IsGroupClose := True\<rparr>]"
      using elems_group_with [of a args And slack m1 r m2] ag b v a1
      by (simp add: Filters_AndGroup_group_with)
    have "length (elems m2 r) = 3" by (simp add: e)
    then have l: "len r = 3" by simp
    show ?thesis
      by (simp add: fb va ag e l)
  qed
next
  assume h: "0 < len f \<and> 0 < len filters"
  obtain r m'' where ag: "Filters_AndGroup slack m' f filters = (r, m'')"
    by (cases "Filters_AndGroup slack m' f filters")
  show "case Filters_AndGroup slack m' f filters of (r, m'') \<Rightarrow>
           len r = len f + len filters
           \<and> ChainingKey (elems m'' r ! (len f - 1)) = And
           \<and> IsGroupOpen (elems m'' r ! len f)
           \<and> IsGroupClose (elems m'' r ! (len f + len filters - 1))
           \<and> map Field_name (elems m'' r) = map Field_name (elems m' f @ elems m' filters)
           \<and> map Operator (elems m'' r) = map Operator (elems m' f @ elems m' filters)
           \<and> map Value (elems m'' r) = map Value (elems m' f @ elems m' filters)"
    using group_with_marks [of f filters And slack m' r m''] h ag
    by (simp add: Filters_AndGroup_group_with)
next
  assume h: "0 < len f \<and> 0 < len filters"
  obtain r m'' where og: "Filters_OrGroup slack m' f filters = (r, m'')"
    by (cases "Filters_OrGroup slack m' f filters")
  show "case Filters_OrGroup slack m' f filters of (r, m'') \<Rightarrow>
           len r = len f + len filters
           \<and> ChainingKey (elems m'' r ! (len f - 1)) = Or
           \<and> IsGroupOpen (elems m'' r ! len f)
           \<and> IsGroupClose (elems m'' r ! (len f + len filters - 1))
           \<and> map Field_name (elems m'' r) = map Field_name (elems m' f @ elems m' filters)
           \<and> map Operator (elems m'' r) = map Operator (elems m' f @ elems m' filters)
           \<and> map Value (elems m'' r) = map Value (elems m' f @ elems m' filters)"
    using group_with_marks [of f filters Or slack m' r m''] h og
    by (simp add: Filters_OrGroup_group_with)
next
  assume h: "0 < len f \<and> 0 < len filters
        \<and> (ptr f + len f \<le> ptr filters \<or> ptr filters + len filters \<le> ptr f)"
  obtain r m'' where ag: "Filters_AndGroup slack m' f filters = (r, m'')"
    by (cases "Filters_AndGroup slack m' f filters")
  show "case Filters_AndGroup slack m' f filters of (r, m'') \<Rightarrow>
           elems m'' r =
             (elems m' f)[len f - 1 := (elems m' f ! (len f - 1))\<lparr>ChainingKey := And\<rparr>]
             @ (let X1 = (elems m' filters)[0 := (elems m' filters ! 0)\<lparr>IsGroupOpen := True\<rparr>]
                in X1[len filters - 1 := (X1 ! (len filters - 1))\<lparr>IsGroupClose := True\<rparr>])"
    using elems_group_with [of f filters And slack m' r m''] h ag
    by (simp add: Filters_AndGroup_group_with)
next
  assume h: "0 < len f \<and> 0 < len filters
        \<and> (ptr f + len f \<le> ptr filters \<or> ptr filters + len filters \<le> ptr f)"
  obtain r m'' where og: "Filters_OrGroup slack m' f filters = (r, m'')"
    by (cases "Filters_OrGroup slack m' f filters")
  show "case Filters_OrGroup slack m' f filters of (r, m'') \<Rightarrow>
           elems m'' r =
             (elems m' f)[len f - 1 := (elems m' f ! (len f - 1))\<lparr>ChainingKey := Or\<rparr>]
             @ (let X1 = (elems m' filters)[0 := (elems m' filters ! 0)\<lparr>IsGroupOpen := True\<rparr>]
                in X1[len filters - 1 := (X1 ! (len filters - 1))\<lparr>IsGroupClose := True\<rparr>])"
    using elems_group_with [of f filters Or slack m' r m''] h og
    by (simp add: Filters_OrGroup_group_with)
qed

theorem group_wrapping_witness:
  "0 < len \<lparr>ptr = 0, len = 1, cap = 1\<rparr> \<and> 0 < len \<lparr>ptr = 1, len = 1, cap = 1\<rparr>
   \<and> ptr \<lparr>ptr = 0, len = 1, cap = 1\<rparr> + len \<lparr>ptr = 0, len = 1, cap = 1\<rparr>
         \<le> ptr \<lparr>ptr = 1, len = 1, cap = 1\<rparr>
   \<and> (case Filters_OrGroup (\<lambda>c n. 0)
          \<lparr>cells = (\<lambda>a. if a = 0 then Filter_lit ''p'' Equal (Some (1::int))
                          else if a = 1 then Filter_lit ''q'' Less (Some 2) else zero_Filter),
           brk = 2\<rparr>
          \<lparr>ptr = 0, len = 1, cap = 1\<rparr> \<lparr>ptr = 1, len = 1, cap = 1\<rparr> of
        (r, m'') \<Rightarrow>
          len r = 2 \<and> ChainingKey (elems m'' r ! 0) = Or \<and> IsGroupOpen (elems m'' r ! 1)
          \<and> IsGroupClose (elems m'' r ! 1)
          \<and> elems m'' r = [(Filter_lit ''p'' Equal (Some 1))\<lparr>ChainingKey := Or\<rparr>,
                         (Filter_lit ''q'' Less (Some 2))\<lparr>IsGroupOpen := True, IsGroupClose := True\<rparr>])"
proof -
  let ?f = "\<lparr>ptr = 0, len = 1, cap = 1\<rparr>"
  let ?g = "\<lparr>ptr = 1, len = 1, cap = 1\<rparr>"
  let ?m = "\<lparr>cells = (\<lambda>a. if a = 0 then Filter_lit ''p'' Equal (Some (1::int))
                          else if a = 1 then Filter_lit ''q'' Less (Some 2) else zero_Filter),
           brk = 2\<rparr>"
  have h2: "0 < len ?f \<and> 0 < len ?g"
    by simp
  have h3: "0 < len ?f \<and> 0 < len ?g \<and> (ptr ?f + len ?f \<le> ptr ?g \<or> ptr ?g + len ?g \<le> ptr ?f)"
    by simp
  have e: "elems ?m ?f = [Filter_lit ''p'' Equal (Some 1)]"
    "elems ?m ?g = [Filter_lit ''q'' Less (Some 2)]"
    by (simp_all add: elems_def)
  note w = group_wrapping [where f = ?f and filters = ?g and m' = ?m and slack = "\<lambda>c n. 0"]
  from w [THEN conjunct2, THEN conjunct1, rule_format, OF h2, THEN conjunct2]
    w [THEN conjunct2, THEN conjunct2, rule_format, OF h3, THEN conjunct2]
  show ?thesis
    unfolding e by (simp split: prod.splits)
qed

section \<open>What every builder preserves\<close>

text \<open>
  A property of predicates that the zero value and the literals have, and that survives
  the three assignments the builders make, holds of every cell of the memory once it
  holds of every cell and of every predicate written out as an argument. It then holds
  of every element of every slice, however the slices share their arrays.
\<close>

lemma inv_elems: "\<forall>a. P (cells m a) \<Longrightarrow> list_all P (elems m s)"
  by (simp add: elems_def list_all_iff)

lemma inv_store:
  "\<forall>a. P (cells m a) \<Longrightarrow> list_all P xs \<Longrightarrow> \<forall>a. P (cells (store m a0 xs) a)"
proof (intro allI)
  fix a
  assume c: "\<forall>a. P (cells m a)" and x: "list_all P xs"
  show "P (cells (store m a0 xs) a)"
  proof (cases "a0 \<le> a \<and> a < a0 + length xs")
    case True
    then have "a - a0 < length xs" by arith
    then have "P (xs ! (a - a0))" using x by (simp add: list_all_length)
    then show ?thesis using True by (simp add: store_def)
  next
    case False
    then show ?thesis using c by (auto simp add: store_def)
  qed
qed

lemma inv_alloc:
  "\<forall>a. P (cells m a) \<Longrightarrow> list_all P xs \<Longrightarrow> P z \<Longrightarrow> \<forall>a. P (cells (snd (alloc z m xs e)) a)"
proof -
  assume c: "\<forall>a. P (cells m a)" and x: "list_all P xs" and z: "P z"
  have "list_all P (xs @ replicate e z)"
    using x z by (auto simp add: list_all_iff)
  then have "\<forall>a. P (cells (store m (brk m) (xs @ replicate e z)) a)"
    using c by (intro inv_store) auto
  then show ?thesis by (simp add: alloc_def)
qed

lemma inv_go_append:
  "\<forall>a. P (cells m a) \<Longrightarrow> list_all P xs \<Longrightarrow> P z \<Longrightarrow>
   \<forall>a. P (cells (snd (go_append slack z m s xs)) a)"
  using inv_store [of P m xs "ptr s + len s"] inv_alloc [of P m "elems m s @ xs" z]
    inv_elems [of P m s]
  by (simp add: go_append_def)

lemma inv_variadic:
  "\<forall>a. P (cells m a) \<Longrightarrow> list_all P xs \<Longrightarrow> P z \<Longrightarrow> \<forall>a. P (cells (snd (variadic z m xs)) a)"
  using inv_alloc [of P m xs z 0] by (simp add: variadic_def)

lemma inv_set_ChainingKey:
  "\<forall>a. P (cells m a) \<Longrightarrow> (\<And>x. P x \<Longrightarrow> P (x\<lparr>ChainingKey := k\<rparr>)) \<Longrightarrow>
   \<forall>a. P (cells (set_ChainingKey m b k) a)"
  by (simp add: set_ChainingKey_def)

lemma inv_set_IsGroupOpen:
  "\<forall>a. P (cells m a) \<Longrightarrow> (\<And>x. P x \<Longrightarrow> P (x\<lparr>IsGroupOpen := True\<rparr>)) \<Longrightarrow>
   \<forall>a. P (cells (set_IsGroupOpen m b) a)"
  by (simp add: set_IsGroupOpen_def)

lemma inv_set_IsGroupClose:
  "\<forall>a. P (cells m a) \<Longrightarrow> (\<And>x. P x \<Longrightarrow> P (x\<lparr>IsGroupClose := True\<rparr>)) \<Longrightarrow>
   \<forall>a. P (cells (set_IsGroupClose m b) a)"
  by (simp add: set_IsGroupClose_def)

lemma inv_chain_with:
  assumes "\<forall>a. P (cells m a)" and "P zero_Filter" and "P x"
    and "\<And>x k. P x \<Longrightarrow> P (x\<lparr>ChainingKey := k\<rparr>)"
  shows "\<forall>a. P (cells (snd (chain_with k slack m f x)) a)"
proof (cases "len f = 0")
  case True
  then show ?thesis
    using inv_alloc [of P m "[x]" zero_Filter 0] assms by (simp add: chain_with_def)
next
  case False
  have "\<forall>a. P (cells (set_ChainingKey m (ptr f + (len f - 1)) k) a)"
    using assms by (intro inv_set_ChainingKey) auto
  then show ?thesis
    using False inv_go_append [of P _ "[x]" zero_Filter slack f] assms
    by (simp add: chain_with_def)
qed

lemma inv_group_with:
  assumes "\<forall>a. P (cells m a)" and "P zero_Filter"
    and ck: "\<And>x k. P x \<Longrightarrow> P (x\<lparr>ChainingKey := k\<rparr>)"
    and op: "\<And>x. P x \<Longrightarrow> P (x\<lparr>IsGroupOpen := True\<rparr>)"
    and cl: "\<And>x. P x \<Longrightarrow> P (x\<lparr>IsGroupClose := True\<rparr>)"
  shows "\<forall>a. P (cells (snd (group_with k slack m f filters)) a)"
proof (cases "len filters = 0")
  case True
  then show ?thesis using assms by (simp add: group_with_def)
next
  case False
  let ?m1 = "if len f > 0 then set_ChainingKey m (ptr f + (len f - 1)) k else m"
  let ?m2 = "set_IsGroupOpen ?m1 (ptr filters)"
  let ?m3 = "set_IsGroupClose ?m2 (ptr filters + (len filters - 1))"
  have "\<forall>a. P (cells (set_ChainingKey m (ptr f + (len f - 1)) k) a)"
    using assms(1) ck by (intro inv_set_ChainingKey) auto
  then have 1: "\<forall>a. P (cells ?m1 a)"
    using assms(1) by (cases "0 < len f") simp_all
  have 2: "\<forall>a. P (cells ?m2 a)"
    using 1 op by (intro inv_set_IsGroupOpen) auto
  have 3: "\<forall>a. P (cells ?m3 a)"
    using 2 cl by (intro inv_set_IsGroupClose) auto
  have "\<forall>a. P (cells (snd (go_append slack zero_Filter ?m3 f (elems ?m3 filters))) a)"
    using 3 assms(2) inv_elems [of P ?m3 filters] by (intro inv_go_append) auto
  then show ?thesis
    using False by (simp add: group_with_def Let_def)
qed

lemma inv_exec:
  assumes inv: "\<forall>a. P (cells (heap st) a)" and args: "stmt_all P s"
    and z: "P zero_Filter" and lit: "\<And>field operator v. P (Filter_lit field operator v)"
    and ck: "\<And>x k. P x \<Longrightarrow> P (x\<lparr>ChainingKey := k\<rparr>)"
    and op: "\<And>x. P x \<Longrightarrow> P (x\<lparr>IsGroupOpen := True\<rparr>)"
    and cl: "\<And>x. P x \<Longrightarrow> P (x\<lparr>IsGroupClose := True\<rparr>)"
  shows "\<forall>a. P (cells (heap (exec slack s st)) a)"
proof (cases s)
  case (Let_FilterBy t field operator v)
  then show ?thesis
    using inv_alloc [of P "heap st" "[Filter_lit field operator v]" zero_Filter 0] inv z lit
    by (simp add: assign_def FilterBy_def)
next
  case (Let_And t r field operator v)
  then show ?thesis
    using inv_chain_with [of P "heap st" "Filter_lit field operator v" And slack "vars st r"]
      inv z lit ck
    by (simp add: assign_def Filters_And_chain_with)
next
  case (Let_Or t r field operator v)
  then show ?thesis
    using inv_chain_with [of P "heap st" "Filter_lit field operator v" Or slack "vars st r"]
      inv z lit ck
    by (simp add: assign_def Filters_Or_chain_with)
next
  case (Let_AndGroup t r g)
  obtain a m where p: "pass_garg st g = (a, m)" by (cases "pass_garg st g")
  have "\<forall>b. P (cells m b)"
  proof (cases g)
    case (Args xs)
    then show ?thesis
      using inv_variadic [of P "heap st" xs zero_Filter] inv z args p Let_AndGroup by simp
  next
    case (Spread i)
    then show ?thesis using inv p by simp
  qed
  then have "\<forall>b. P (cells (snd (group_with And slack m (vars st r) a)) b)"
    using z ck op cl by (intro inv_group_with) auto
  then show ?thesis
    using Let_AndGroup p by (simp add: assign_def Filters_AndGroup_group_with)
next
  case (Let_OrGroup t r g)
  obtain a m where p: "pass_garg st g = (a, m)" by (cases "pass_garg st g")
  have "\<forall>b. P (cells m b)"
  proof (cases g)
    case (Args xs)
    then show ?thesis
      using inv_variadic [of P "heap st" xs zero_Filter] inv z args p Let_OrGroup by simp
  next
    case (Spread i)
    then show ?thesis using inv p by simp
  qed
  then have "\<forall>b. P (cells (snd (group_with Or slack m (vars st r) a)) b)"
    using z ck op cl by (intro inv_group_with) auto
  then show ?thesis
    using Let_OrGroup p by (simp add: assign_def Filters_OrGroup_group_with)
qed

lemma inv_run:
  assumes args: "list_all (stmt_all P) prog" and inv: "\<forall>a. P (cells (heap st) a)"
    and z: "P zero_Filter" and lit: "\<And>field operator v. P (Filter_lit field operator v)"
    and ck: "\<And>x k. P x \<Longrightarrow> P (x\<lparr>ChainingKey := k\<rparr>)"
    and op: "\<And>x. P x \<Longrightarrow> P (x\<lparr>IsGroupOpen := True\<rparr>)"
    and cl: "\<And>x. P x \<Longrightarrow> P (x\<lparr>IsGroupClose := True\<rparr>)"
  shows "\<forall>a. P (cells (heap (run slack prog st)) a)"
  using args inv
proof (induction prog arbitrary: st)
  case Nil
  then show ?case by (simp add: run_def)
next
  case (Cons s prog)
  have "\<forall>a. P (cells (heap (exec slack s st)) a)"
    using Cons.prems z lit ck op cl by (intro inv_exec) auto
  then have "\<forall>a. P (cells (heap (run slack prog (exec slack s st))) a)"
    using Cons.IH Cons.prems by simp
  then show ?case by (simp add: run_def)
qed

lemma inv_built:
  assumes args: "list_all (stmt_all P) prog"
    and z: "P zero_Filter" and lit: "\<And>field operator v. P (Filter_lit field operator v)"
    and ck: "\<And>x k. P x \<Longrightarrow> P (x\<lparr>ChainingKey := k\<rparr>)"
    and op: "\<And>x. P x \<Longrightarrow> P (x\<lparr>IsGroupOpen := True\<rparr>)"
    and cl: "\<And>x. P x \<Longrightarrow> P (x\<lparr>IsGroupClose := True\<rparr>)"
  shows "list_all P (built slack prog x)"
proof -
  have "\<forall>a. P (cells (heap (init_state :: 'a pstate)) a)"
    using z by (simp add: init_state_def)
  then have "\<forall>a. P (cells (heap (run slack prog init_state)) a)"
    using args z lit ck op cl by (intro inv_run) auto
  then show ?thesis
    unfolding built_def by (rule inv_elems)
qed

lemma built_no_counters:
  "list_all (stmt_all no_counters) prog \<Longrightarrow> list_all no_counters (built slack prog x)"
  by (rule inv_built) (simp_all add: no_counters_def zero_Filter_def Filter_lit_def)

lemma built_no_override:
  "list_all (stmt_all no_override) prog \<Longrightarrow> list_all no_override (built slack prog x)"
  by (rule inv_built) (simp_all add: no_override_def zero_Filter_def Filter_lit_def)

lemma no_counters_sums:
  "list_all no_counters xs \<Longrightarrow> sum_open xs = 0 \<and> sum_close xs = 0 \<and> running_balance 0 xs"
  by (induction xs) (simp_all add: sum_open_def sum_close_def no_counters_def)

section \<open>Counters and nesting\<close>

lemma IsGroupOpen_again: "IsGroupOpen x \<Longrightarrow> x\<lparr>IsGroupOpen := True\<rparr> = x"
  by (cases x) simp

lemma IsGroupClose_again: "IsGroupClose x \<Longrightarrow> x\<lparr>IsGroupClose := True\<rparr> = x"
  by (cases x) simp

lemma regroup_same:
  assumes g: "0 < len g" and op: "IsGroupOpen (elems m g ! 0)"
    and cl: "IsGroupClose (elems m g ! (len g - 1))"
    and res: "group_with k slack m nil_slice g = (r, m')"
  shows "elems m' r = elems m g"
proof -
  have o: "IsGroupOpen (cells m (ptr g))"
    using op g nth_elems [of 0 g m] by simp
  have c: "IsGroupClose (cells m (ptr g + (len g - 1)))"
    using cl g nth_elems [of "len g - 1" g m] by simp
  have m2: "set_IsGroupOpen m (ptr g) = m"
    using o by (simp add: set_IsGroupOpen_def IsGroupOpen_again)
  have m3: "set_IsGroupClose m (ptr g + (len g - 1)) = m"
    using c by (simp add: set_IsGroupClose_def IsGroupClose_again)
  have "go_append slack zero_Filter m nil_slice (elems m g) = (r, m')"
    using res g m2 m3 by (simp add: group_with_def nil_slice_def Let_def)
  then show ?thesis
    using elems_go_append [of slack zero_Filter m nil_slice "elems m g"]
    by (simp add: elems_empty nil_slice_def)
qed

lemma regroup_same_after:
  assumes n: "0 < len f" and g: "0 < len g"
    and dis: "ptr f + len f \<le> ptr g \<or> ptr g + len g \<le> ptr f"
    and op: "IsGroupOpen (elems m g ! 0)" and cl: "IsGroupClose (elems m g ! (len g - 1))"
    and res: "group_with k slack m f g = (r, m')"
  shows "elems m' r =
      (elems m f)[len f - 1 := (elems m f ! (len f - 1))\<lparr>ChainingKey := k\<rparr>] @ elems m g"
proof -
  have 1: "(elems m g)[0 := (elems m g ! 0)\<lparr>IsGroupOpen := True\<rparr>] = elems m g"
    using op by (simp add: IsGroupOpen_again)
  have 2: "(elems m g)[len g - 1 := (elems m g ! (len g - 1))\<lparr>IsGroupClose := True\<rparr>] = elems m g"
    using cl by (simp add: IsGroupClose_again)
  show ?thesis
    using elems_group_with [OF n g dis res] by (simp only: Let_def 1 2)
qed

text \<open>
  Claim C9, as the code has it. No builder writes \<^verbatim>\<open>GroupOpenQty\<close> or
  \<^verbatim>\<open>GroupCloseQty\<close>: in every sequence a program of builder calls holds in any of its
  variables, whatever it branches on or spreads, both counters of every element are 0,
  provided the predicates the program writes out as group arguments have them 0. Group
  boundaries are therefore in the two booleans alone, and a token carries at most one
  mark of each kind: grouping a block whose first element is already marked group-open
  and whose last is already marked group-close yields the very elements of that block,
  on the empty receiver and after any receiver that does not overlap the block, so two
  groups around the same block are recorded as one.
\<close>

theorem builder_never_writes_counters:
  "(list_all (stmt_all no_counters) prog \<longrightarrow> list_all no_counters (built slack prog x))
   \<and> (0 < len g \<and> IsGroupOpen (elems m g ! 0) \<and> IsGroupClose (elems m g ! (len g - 1)) \<longrightarrow>
        (case Filters_AndGroup slack m nil_slice g of (r, m') \<Rightarrow> elems m' r = elems m g)
        \<and> (case Filters_OrGroup slack m nil_slice g of (r, m') \<Rightarrow> elems m' r = elems m g))
   \<and> (0 < len f \<and> (ptr f + len f \<le> ptr g \<or> ptr g + len g \<le> ptr f)
        \<and> 0 < len g \<and> IsGroupOpen (elems m g ! 0) \<and> IsGroupClose (elems m g ! (len g - 1)) \<longrightarrow>
        (case Filters_AndGroup slack m f g of (r, m') \<Rightarrow>
           elems m' r = (elems m f)[len f - 1 := (elems m f ! (len f - 1))\<lparr>ChainingKey := And\<rparr>]
                          @ elems m g)
        \<and> (case Filters_OrGroup slack m f g of (r, m') \<Rightarrow>
           elems m' r = (elems m f)[len f - 1 := (elems m f ! (len f - 1))\<lparr>ChainingKey := Or\<rparr>]
                          @ elems m g))"
proof (intro conjI impI)
  assume "list_all (stmt_all no_counters) prog"
  then show "list_all no_counters (built slack prog x)"
    by (rule built_no_counters)
next
  assume h: "0 < len g \<and> IsGroupOpen (elems m g ! 0) \<and> IsGroupClose (elems m g ! (len g - 1))"
  obtain r m' where res: "Filters_AndGroup slack m nil_slice g = (r, m')"
    by (cases "Filters_AndGroup slack m nil_slice g")
  show "case Filters_AndGroup slack m nil_slice g of (r, m') \<Rightarrow> elems m' r = elems m g"
    using regroup_same [of g m And slack r m'] h res
    by (simp add: Filters_AndGroup_group_with)
next
  assume h: "0 < len g \<and> IsGroupOpen (elems m g ! 0) \<and> IsGroupClose (elems m g ! (len g - 1))"
  obtain r m' where res: "Filters_OrGroup slack m nil_slice g = (r, m')"
    by (cases "Filters_OrGroup slack m nil_slice g")
  show "case Filters_OrGroup slack m nil_slice g of (r, m') \<Rightarrow> elems m' r = elems m g"
    using regroup_same [of g m Or slack r m'] h res
    by (simp add: Filters_OrGroup_group_with)
next
  assume h: "0 < len f \<and> (ptr f + len f \<le> ptr g \<or> ptr g + len g \<le> ptr f)
        \<and> 0 < len g \<and> IsGroupOpen (elems m g ! 0) \<and> IsGroupClose (elems m g ! (len g - 1))"
  obtain r m' where res: "Filters_AndGroup slack m f g = (r, m')"
    by (cases "Filters_AndGroup slack m f g")
  show "case Filters_AndGroup slack m f g of (r, m') \<Rightarrow>
           elems m' r = (elems m f)[len f - 1 := (elems m f ! (len f - 1))\<lparr>ChainingKey := And\<rparr>]
                          @ elems m g"
    using regroup_same_after [of f g m And slack r m'] h res
    by (simp add: Filters_AndGroup_group_with)
next
  assume h: "0 < len f \<and> (ptr f + len f \<le> ptr g \<or> ptr g + len g \<le> ptr f)
        \<and> 0 < len g \<and> IsGroupOpen (elems m g ! 0) \<and> IsGroupClose (elems m g ! (len g - 1))"
  obtain r m' where res: "Filters_OrGroup slack m f g = (r, m')"
    by (cases "Filters_OrGroup slack m f g")
  show "case Filters_OrGroup slack m f g of (r, m') \<Rightarrow>
           elems m' r = (elems m f)[len f - 1 := (elems m f ! (len f - 1))\<lparr>ChainingKey := Or\<rparr>]
                          @ elems m g"
    using regroup_same_after [of f g m Or slack r m'] h res
    by (simp add: Filters_OrGroup_group_with)
qed

theorem builder_never_writes_counters_witness:
  "list_all (stmt_all no_counters)
     [Let_FilterBy 0 ''a'' Equal (Some (1::int)), Let_Or 0 0 ''b'' Equal (Some 2),
      Let_AndGroup 1 9 (Spread 0), Let_And 2 1 ''c'' Less (Some 3),
      Let_OrGroup 2 2 (Args [Filter_lit ''d'' Like (Some 4), Filter_lit ''e'' In (Some 5)])]
   \<and> list_all no_counters (built (\<lambda>c n. 0)
     [Let_FilterBy 0 ''a'' Equal (Some (1::int)), Let_Or 0 0 ''b'' Equal (Some 2),
      Let_AndGroup 1 9 (Spread 0), Let_And 2 1 ''c'' Less (Some 3),
      Let_OrGroup 2 2 (Args [Filter_lit ''d'' Like (Some 4), Filter_lit ''e'' In (Some 5)])] 2)
   \<and> built (\<lambda>c n. 0)
     [Let_FilterBy 0 ''a'' Equal (Some (1::int)), Let_Or 0 0 ''b'' Equal (Some 2),
      Let_AndGroup 1 9 (Spread 0), Let_And 2 1 ''c'' Less (Some 3),
      Let_OrGroup 2 2 (Args [Filter_lit ''d'' Like (Some 4), Filter_lit ''e'' In (Some 5)])] 2
     = [(Filter_lit ''a'' Equal (Some 1))\<lparr>IsGroupOpen := True, ChainingKey := Or\<rparr>,
        (Filter_lit ''b'' Equal (Some 2))\<lparr>IsGroupClose := True, ChainingKey := And\<rparr>,
        (Filter_lit ''c'' Less (Some 3))\<lparr>ChainingKey := Or\<rparr>,
        (Filter_lit ''d'' Like (Some 4))\<lparr>IsGroupOpen := True\<rparr>,
        (Filter_lit ''e'' In (Some 5))\<lparr>IsGroupClose := True\<rparr>]
   \<and> 0 < len \<lparr>ptr = 0, len = 1, cap = 1\<rparr> \<and> 0 < len \<lparr>ptr = 1, len = 2, cap = 2\<rparr>
   \<and> ptr \<lparr>ptr = 0, len = 1, cap = 1\<rparr> + len \<lparr>ptr = 0, len = 1, cap = 1\<rparr> \<le> ptr \<lparr>ptr = 1, len = 2, cap = 2\<rparr>
   \<and> (case Filters_AndGroup (\<lambda>c n. 0)
          \<lparr>cells = (\<lambda>a. if a = 0 then Filter_lit ''p'' Equal (Some (1::int))
                      else if a = 1 then (Filter_lit ''q'' Less (Some 2))
                                           \<lparr>IsGroupOpen := True, ChainingKey := Or\<rparr>
                      else (Filter_lit ''r'' Like (Some 3))\<lparr>IsGroupClose := True\<rparr>),
           brk = 3\<rparr>
          nil_slice \<lparr>ptr = 1, len = 2, cap = 2\<rparr> of
        (r, m') \<Rightarrow> elems m' r =
            [(Filter_lit ''q'' Less (Some 2))\<lparr>IsGroupOpen := True, ChainingKey := Or\<rparr>,
             (Filter_lit ''r'' Like (Some 3))\<lparr>IsGroupClose := True\<rparr>])
   \<and> (case Filters_OrGroup (\<lambda>c n. 0)
          \<lparr>cells = (\<lambda>a. if a = 0 then Filter_lit ''p'' Equal (Some (1::int))
                      else if a = 1 then (Filter_lit ''q'' Less (Some 2))
                                           \<lparr>IsGroupOpen := True, ChainingKey := Or\<rparr>
                      else (Filter_lit ''r'' Like (Some 3))\<lparr>IsGroupClose := True\<rparr>),
           brk = 3\<rparr>
          \<lparr>ptr = 0, len = 1, cap = 1\<rparr> \<lparr>ptr = 1, len = 2, cap = 2\<rparr> of
        (r, m') \<Rightarrow> elems m' r =
            (Filter_lit ''p'' Equal (Some 1))\<lparr>ChainingKey := Or\<rparr> #
            [(Filter_lit ''q'' Less (Some 2))\<lparr>IsGroupOpen := True, ChainingKey := Or\<rparr>,
             (Filter_lit ''r'' Like (Some 3))\<lparr>IsGroupClose := True\<rparr>])"
proof -
  let ?prog = "[Let_FilterBy 0 ''a'' Equal (Some (1::int)), Let_Or 0 0 ''b'' Equal (Some 2),
      Let_AndGroup 1 9 (Spread 0), Let_And 2 1 ''c'' Less (Some 3),
      Let_OrGroup 2 2 (Args [Filter_lit ''d'' Like (Some 4), Filter_lit ''e'' In (Some 5)])]"
  let ?f = "\<lparr>ptr = 0, len = 1, cap = 1\<rparr>"
  let ?g = "\<lparr>ptr = 1, len = 2, cap = 2\<rparr>"
  let ?m = "\<lparr>cells = (\<lambda>a. if a = 0 then Filter_lit ''p'' Equal (Some (1::int))
                      else if a = 1 then (Filter_lit ''q'' Less (Some 2))
                                           \<lparr>IsGroupOpen := True, ChainingKey := Or\<rparr>
                      else (Filter_lit ''r'' Like (Some 3))\<lparr>IsGroupClose := True\<rparr>),
           brk = 3\<rparr>"
  have h1: "list_all (stmt_all no_counters) ?prog"
    by (simp add: no_counters_def Filter_lit_def zero_Filter_def)
  have e: "elems ?m ?g =
            [(Filter_lit ''q'' Less (Some 2))\<lparr>IsGroupOpen := True, ChainingKey := Or\<rparr>,
             (Filter_lit ''r'' Like (Some 3))\<lparr>IsGroupClose := True\<rparr>]"
    "elems ?m ?f = [Filter_lit ''p'' Equal (Some 1)]"
    by (rule nth_equalityI; auto simp add: nth_elems less_Suc_eq numeral_2_eq_2)+
  have h2: "0 < len ?g \<and> IsGroupOpen (elems ?m ?g ! 0) \<and> IsGroupClose (elems ?m ?g ! (len ?g - 1))"
    unfolding e by simp
  have h3: "0 < len ?f \<and> (ptr ?f + len ?f \<le> ptr ?g \<or> ptr ?g + len ?g \<le> ptr ?f)
        \<and> 0 < len ?g \<and> IsGroupOpen (elems ?m ?g ! 0) \<and> IsGroupClose (elems ?m ?g ! (len ?g - 1))"
    unfolding e by simp
  have v: "built (\<lambda>c n. 0) ?prog 2
     = [(Filter_lit ''a'' Equal (Some 1))\<lparr>IsGroupOpen := True, ChainingKey := Or\<rparr>,
        (Filter_lit ''b'' Equal (Some 2))\<lparr>IsGroupClose := True, ChainingKey := And\<rparr>,
        (Filter_lit ''c'' Less (Some 3))\<lparr>ChainingKey := Or\<rparr>,
        (Filter_lit ''d'' Like (Some 4))\<lparr>IsGroupOpen := True\<rparr>,
        (Filter_lit ''e'' In (Some 5))\<lparr>IsGroupClose := True\<rparr>]"
    by (simp add: ev upt_rec)
  note w = builder_never_writes_counters [where prog = ?prog and slack = "\<lambda>c n. 0" and x = 2
      and g = ?g and m = ?m and f = ?f]
  from w [THEN conjunct1, rule_format, OF h1]
    w [THEN conjunct2, THEN conjunct1, rule_format, OF h2, THEN conjunct1]
    w [THEN conjunct2, THEN conjunct2, rule_format, OF h3, THEN conjunct2]
  show ?thesis
    using h1 v unfolding e by (simp split: prod.splits)
qed

text \<open>
  Claim C9 as stated fails in its last clause: nesting deeper than one level is
  representable through the builders. \<^verbatim>\<open>FilterBy("a", Equal, 1).AndGroup(Filter{Field:
  "b", ...}, Filter{Field: "c", ...}).And("d", Equal, 4)\<close>, spread into
  \<^verbatim>\<open>Filters{}.OrGroup\<close>, is \<open>a\<close> marked open, \<open>b\<close> marked open, \<open>c\<close> marked close,
  \<open>d\<close> marked close: a group inside a group, and a renderer walking it reaches depth 2.
  The counters are 0 all the same.
\<close>

theorem nesting_depth_two_counterexample:
  "built (\<lambda>c n. 0)
     [Let_FilterBy 0 ''a'' Equal (Some (1::int)),
      Let_AndGroup 0 0 (Args [Filter_lit ''b'' Equal (Some 2), Filter_lit ''c'' Equal (Some 3)]),
      Let_And 0 0 ''d'' Equal (Some 4),
      Let_OrGroup 1 9 (Spread 0)] 1
     = [(Filter_lit ''a'' Equal (Some 1))\<lparr>ChainingKey := And, IsGroupOpen := True\<rparr>,
        (Filter_lit ''b'' Equal (Some 2))\<lparr>IsGroupOpen := True\<rparr>,
        (Filter_lit ''c'' Equal (Some 3))\<lparr>IsGroupClose := True, ChainingKey := And\<rparr>,
        (Filter_lit ''d'' Equal (Some 4))\<lparr>IsGroupClose := True\<rparr>]
   \<and> max_depth 0 (built (\<lambda>c n. 0)
     [Let_FilterBy 0 ''a'' Equal (Some (1::int)),
      Let_AndGroup 0 0 (Args [Filter_lit ''b'' Equal (Some 2), Filter_lit ''c'' Equal (Some 3)]),
      Let_And 0 0 ''d'' Equal (Some 4),
      Let_OrGroup 1 9 (Spread 0)] 1) = 2
   \<and> list_all no_counters (built (\<lambda>c n. 0)
     [Let_FilterBy 0 ''a'' Equal (Some (1::int)),
      Let_AndGroup 0 0 (Args [Filter_lit ''b'' Equal (Some 2), Filter_lit ''c'' Equal (Some 3)]),
      Let_And 0 0 ''d'' Equal (Some 4),
      Let_OrGroup 1 9 (Spread 0)] 1)"
proof -
  have v: "built (\<lambda>c n. 0)
     [Let_FilterBy 0 ''a'' Equal (Some (1::int)),
      Let_AndGroup 0 0 (Args [Filter_lit ''b'' Equal (Some 2), Filter_lit ''c'' Equal (Some 3)]),
      Let_And 0 0 ''d'' Equal (Some 4),
      Let_OrGroup 1 9 (Spread 0)] 1
     = [(Filter_lit ''a'' Equal (Some 1))\<lparr>ChainingKey := And, IsGroupOpen := True\<rparr>,
        (Filter_lit ''b'' Equal (Some 2))\<lparr>IsGroupOpen := True\<rparr>,
        (Filter_lit ''c'' Equal (Some 3))\<lparr>IsGroupClose := True, ChainingKey := And\<rparr>,
        (Filter_lit ''d'' Equal (Some 4))\<lparr>IsGroupClose := True\<rparr>]"
    by (simp add: ev upt_rec)
  show ?thesis
    unfolding v by (simp add: Filter_lit_def zero_Filter_def no_counters_def)
qed

section \<open>Group balance of built sequences\<close>

text \<open>
  Claim C2, as the code has it. The builders copy the counters of the predicates they are
  given and never set one, so a sequence is balanced when the predicates written out as
  group arguments carry no counters: then every counter in every built sequence is 0, the
  group-open quantities and the group-close quantities both sum to 0, and the running
  balance is 0 at every token, never negative and zero at the end.
\<close>

theorem built_group_balanced:
  assumes "list_all (stmt_all no_counters) prog"
  shows "sum_open (built slack prog x) = sum_close (built slack prog x)
    \<and> running_balance 0 (built slack prog x)
    \<and> group_balanced (built slack prog x)"
  using no_counters_sums [OF built_no_counters [OF assms, of slack x]]
  by (simp add: group_balanced_def)

theorem built_group_balanced_witness:
  "list_all (stmt_all no_counters)
     [Let_FilterBy 0 ''a'' Equal (Some (1::int)),
      Let_AndGroup 0 0 (Args [Filter_lit ''b'' Equal (Some 2), Filter_lit ''c'' Equal (Some 3)])]
   \<and> built (\<lambda>c n. 0)
     [Let_FilterBy 0 ''a'' Equal (Some (1::int)),
      Let_AndGroup 0 0 (Args [Filter_lit ''b'' Equal (Some 2), Filter_lit ''c'' Equal (Some 3)])] 0
     = [(Filter_lit ''a'' Equal (Some 1))\<lparr>ChainingKey := And\<rparr>,
        (Filter_lit ''b'' Equal (Some 2))\<lparr>IsGroupOpen := True\<rparr>,
        (Filter_lit ''c'' Equal (Some 3))\<lparr>IsGroupClose := True\<rparr>]
   \<and> group_balanced (built (\<lambda>c n. 0)
     [Let_FilterBy 0 ''a'' Equal (Some (1::int)),
      Let_AndGroup 0 0 (Args [Filter_lit ''b'' Equal (Some 2), Filter_lit ''c'' Equal (Some 3)])] 0)"
proof -
  let ?prog = "[Let_FilterBy 0 ''a'' Equal (Some (1::int)),
      Let_AndGroup 0 0 (Args [Filter_lit ''b'' Equal (Some 2), Filter_lit ''c'' Equal (Some 3)])]"
  have h: "list_all (stmt_all no_counters) ?prog"
    by (simp add: no_counters_def Filter_lit_def zero_Filter_def)
  have v: "built (\<lambda>c n. 0) ?prog 0
     = [(Filter_lit ''a'' Equal (Some 1))\<lparr>ChainingKey := And\<rparr>,
        (Filter_lit ''b'' Equal (Some 2))\<lparr>IsGroupOpen := True\<rparr>,
        (Filter_lit ''c'' Equal (Some 3))\<lparr>IsGroupClose := True\<rparr>]"
    by (simp add: ev upt_rec)
  from built_group_balanced [OF h, of "\<lambda>c n. 0" 0]
  show ?thesis using h v by simp
qed

text \<open>
  Claim C2 as stated, for every sequence built through the builders, fails: a group
  argument may carry counters of its own, which the builders copy. The sequence
  \<^verbatim>\<open>Filters{}.AndGroup(Filter{Field: "a", Operator: Equal, Value: 1, GroupOpenQty: 1})\<close>
  has one element, with one group opened and none closed.
\<close>

theorem group_balance_counterexample:
  "built (\<lambda>c n. 0)
     [Let_AndGroup 0 0 (Args [(Filter_lit ''a'' Equal (Some (1::int)))\<lparr>GroupOpenQty := 1\<rparr>])] 0
     = [(Filter_lit ''a'' Equal (Some 1))
          \<lparr>GroupOpenQty := 1, IsGroupOpen := True, IsGroupClose := True\<rparr>]
   \<and> sum_open (built (\<lambda>c n. 0)
     [Let_AndGroup 0 0 (Args [(Filter_lit ''a'' Equal (Some (1::int)))\<lparr>GroupOpenQty := 1\<rparr>])] 0) = 1
   \<and> sum_close (built (\<lambda>c n. 0)
     [Let_AndGroup 0 0 (Args [(Filter_lit ''a'' Equal (Some (1::int)))\<lparr>GroupOpenQty := 1\<rparr>])] 0) = 0
   \<and> \<not> group_balanced (built (\<lambda>c n. 0)
     [Let_AndGroup 0 0 (Args [(Filter_lit ''a'' Equal (Some (1::int)))\<lparr>GroupOpenQty := 1\<rparr>])] 0)"
proof -
  have v: "built (\<lambda>c n. 0)
     [Let_AndGroup 0 0 (Args [(Filter_lit ''a'' Equal (Some (1::int)))\<lparr>GroupOpenQty := 1\<rparr>])] 0
     = [(Filter_lit ''a'' Equal (Some 1))
          \<lparr>GroupOpenQty := 1, IsGroupOpen := True, IsGroupClose := True\<rparr>]"
    by (simp add: ev)
  show ?thesis
    unfolding v
    by (simp add: group_balanced_def sum_open_def sum_close_def Filter_lit_def zero_Filter_def)
qed

section \<open>The override annotation\<close>

text \<open>
  The builders commute with erasing \<^verbatim>\<open>OverridePreviousFilterChainingKey\<close> from every
  cell of the memory: they return the same header, and the memory they leave is the
  erased one. What they compute in the other fields does not depend on that field.
\<close>

lemma erase_override_simps [simp]:
  "erase_override zero_Filter = zero_Filter"
  "erase_override (Filter_lit field operator v) = Filter_lit field operator v"
  "erase_override (x\<lparr>ChainingKey := k\<rparr>) = (erase_override x)\<lparr>ChainingKey := k\<rparr>"
  "erase_override (x\<lparr>IsGroupOpen := True\<rparr>) = (erase_override x)\<lparr>IsGroupOpen := True\<rparr>"
  "erase_override (x\<lparr>IsGroupClose := True\<rparr>) = (erase_override x)\<lparr>IsGroupClose := True\<rparr>"
  "ChainingKey (erase_override x) = ChainingKey x"
  by (simp_all add: erase_override_def zero_Filter_def Filter_lit_def)

lemma erase_mem_simps [simp]:
  "cells (erase_mem m) a = erase_override (cells m a)" "brk (erase_mem m) = brk m"
  by (simp_all add: erase_mem_def)

lemma mem_eqI: "cells m = cells m' \<Longrightarrow> brk m = brk m' \<Longrightarrow> m = (m' :: 'a mem)"
  by simp

lemma elems_erase_mem: "elems (erase_mem m) s = map erase_override (elems m s)"
  by (simp add: elems_def)

lemma store_erase_mem:
  "store (erase_mem m) a (map erase_override xs) = erase_mem (store m a xs)"
  by (rule mem_eqI) (auto simp add: store_def fun_eq_iff erase_mem_def)

lemma alloc_erase_mem:
  "alloc zero_Filter (erase_mem m) (map erase_override xs) e =
     (fst (alloc zero_Filter m xs e), erase_mem (snd (alloc zero_Filter m xs e)))"
proof -
  have "map erase_override xs @ replicate e zero_Filter
      = map erase_override (xs @ replicate e zero_Filter)"
    by simp
  then have "store (erase_mem m) (brk m) (map erase_override xs @ replicate e zero_Filter)
      = erase_mem (store m (brk m) (xs @ replicate e zero_Filter))"
    by (simp only: store_erase_mem)
  then show ?thesis
    by (simp add: alloc_def) (simp add: erase_mem_def)
qed

lemma go_append_erase_mem:
  "go_append slack zero_Filter (erase_mem m) s (map erase_override xs) =
     (fst (go_append slack zero_Filter m s xs), erase_mem (snd (go_append slack zero_Filter m s xs)))"
  using alloc_erase_mem [of m "elems m s @ xs"]
  by (simp add: go_append_def store_erase_mem elems_erase_mem)

lemma variadic_erase_mem:
  "variadic zero_Filter (erase_mem m) (map erase_override xs) =
     (fst (variadic zero_Filter m xs), erase_mem (snd (variadic zero_Filter m xs)))"
  by (simp add: variadic_def alloc_erase_mem)

lemma setters_erase_mem:
  "set_ChainingKey (erase_mem m) a k = erase_mem (set_ChainingKey m a k)"
  "set_IsGroupOpen (erase_mem m) a = erase_mem (set_IsGroupOpen m a)"
  "set_IsGroupClose (erase_mem m) a = erase_mem (set_IsGroupClose m a)"
  by (rule mem_eqI; simp add: set_ChainingKey_def set_IsGroupOpen_def set_IsGroupClose_def fun_eq_iff)+

lemma go_append_erase_mem1:
  "go_append slack zero_Filter (erase_mem m) s [erase_override x] =
     (fst (go_append slack zero_Filter m s [x]), erase_mem (snd (go_append slack zero_Filter m s [x])))"
  using go_append_erase_mem [of slack m s "[x]"] by simp

lemma alloc_erase_mem1:
  "alloc zero_Filter (erase_mem m) [erase_override x] e =
     (fst (alloc zero_Filter m [x] e), erase_mem (snd (alloc zero_Filter m [x] e)))"
  using alloc_erase_mem [of m "[x]" e] by simp

lemma chain_with_erase_mem:
  "chain_with k slack (erase_mem m) f (erase_override x) =
     (fst (chain_with k slack m f x), erase_mem (snd (chain_with k slack m f x)))"
  by (simp add: chain_with_def setters_erase_mem go_append_erase_mem1 alloc_erase_mem1)

lemma group_with_erase_mem:
  "group_with k slack (erase_mem m) f filters =
     (fst (group_with k slack m f filters), erase_mem (snd (group_with k slack m f filters)))"
  by (simp add: group_with_def Let_def setters_erase_mem elems_erase_mem go_append_erase_mem)

lemma FilterBy_erase_mem:
  "FilterBy (erase_mem m) field operator v =
     (fst (FilterBy m field operator v), erase_mem (snd (FilterBy m field operator v)))"
  using alloc_erase_mem1 [of m "Filter_lit field operator v" 0] by (simp add: FilterBy_def)

lemma Filters_And_erase_mem:
  "Filters_And slack (erase_mem m) f field operator v =
     (fst (Filters_And slack m f field operator v),
      erase_mem (snd (Filters_And slack m f field operator v)))"
  using chain_with_erase_mem [of And slack m f "Filter_lit field operator v"]
  by (simp add: Filters_And_chain_with)

lemma Filters_Or_erase_mem:
  "Filters_Or slack (erase_mem m) f field operator v =
     (fst (Filters_Or slack m f field operator v),
      erase_mem (snd (Filters_Or slack m f field operator v)))"
  using chain_with_erase_mem [of Or slack m f "Filter_lit field operator v"]
  by (simp add: Filters_Or_chain_with)

lemma pass_garg_erase_mem:
  "pass_garg (st\<lparr>heap := erase_mem (heap st)\<rparr>) (erase_garg g) =
     (fst (pass_garg st g), erase_mem (snd (pass_garg st g)))"
  by (cases g) (simp_all add: variadic_erase_mem)

lemma exec_erase_mem:
  "exec slack (erase_stmt s) (st\<lparr>heap := erase_mem (heap st)\<rparr>) =
     (exec slack s st)\<lparr>heap := erase_mem (heap (exec slack s st))\<rparr>"
proof (cases s)
  case (Let_FilterBy t field operator v)
  then show ?thesis by (simp add: assign_def FilterBy_erase_mem)
next
  case (Let_And t r field operator v)
  then show ?thesis by (simp add: assign_def Filters_And_erase_mem)
next
  case (Let_Or t r field operator v)
  then show ?thesis by (simp add: assign_def Filters_Or_erase_mem)
next
  case (Let_AndGroup t r g)
  then show ?thesis
    by (simp add: assign_def pass_garg_erase_mem Filters_AndGroup_group_with
        group_with_erase_mem split: prod.splits)
next
  case (Let_OrGroup t r g)
  then show ?thesis
    by (simp add: assign_def pass_garg_erase_mem Filters_OrGroup_group_with
        group_with_erase_mem split: prod.splits)
qed

lemma run_erase_mem:
  "run slack (map erase_stmt prog) (st\<lparr>heap := erase_mem (heap st)\<rparr>) =
     (run slack prog st)\<lparr>heap := erase_mem (heap (run slack prog st))\<rparr>"
proof (induction prog arbitrary: st)
  case Nil
  then show ?case by (simp add: run_def)
next
  case (Cons s prog)
  have "run slack (map erase_stmt (s # prog)) (st\<lparr>heap := erase_mem (heap st)\<rparr>)
      = run slack (map erase_stmt prog) (exec slack (erase_stmt s) (st\<lparr>heap := erase_mem (heap st)\<rparr>))"
    by (simp add: run_def)
  also have "\<dots> = run slack (map erase_stmt prog)
      ((exec slack s st)\<lparr>heap := erase_mem (heap (exec slack s st))\<rparr>)"
    by (simp only: exec_erase_mem)
  also have "\<dots> = (run slack prog (exec slack s st))
      \<lparr>heap := erase_mem (heap (run slack prog (exec slack s st)))\<rparr>"
    by (rule Cons.IH)
  finally show ?case by (simp add: run_def)
qed

lemma built_erase:
  "built slack (map erase_stmt prog) x = map erase_override (built slack prog x)"
proof -
  have i: "(init_state :: 'a pstate)\<lparr>heap := erase_mem (heap init_state)\<rparr> = init_state"
    by (simp add: init_state_def erase_mem_def)
  have "run slack (map erase_stmt prog) (init_state :: 'a pstate)
      = (run slack prog init_state)\<lparr>heap := erase_mem (heap (run slack prog init_state))\<rparr>"
    using run_erase_mem [of slack prog "init_state :: 'a pstate"] by (simp only: i)
  then show ?thesis
    by (simp add: built_def elems_erase_mem)
qed

text \<open>
  Claim C10. \<^verbatim>\<open>OverridePreviousFilterChainingKey\<close> is never set during construction:
  in every sequence a program of builder calls holds in any of its variables the field is
  empty on every element, provided it is empty on the predicates the program writes out as
  group arguments. Nor is it ever read: erasing the field from every predicate the program
  writes out changes nothing in what the program builds but that same field, so every
  chaining key of every built sequence is the one built without the annotation.
\<close>

theorem override_never_set_or_applied:
  "(list_all (stmt_all no_override) prog \<longrightarrow> list_all no_override (built slack prog x))
   \<and> built slack (map erase_stmt prog) x = map erase_override (built slack prog x)
   \<and> map ChainingKey (built slack (map erase_stmt prog) x) = map ChainingKey (built slack prog x)"
proof (intro conjI impI)
  assume "list_all (stmt_all no_override) prog"
  then show "list_all no_override (built slack prog x)"
    by (rule built_no_override)
next
  show "built slack (map erase_stmt prog) x = map erase_override (built slack prog x)"
    by (rule built_erase)
next
  show "map ChainingKey (built slack (map erase_stmt prog) x) = map ChainingKey (built slack prog x)"
    by (simp add: built_erase)
qed

theorem override_never_set_or_applied_witness:
  "list_all (stmt_all no_override)
     [Let_FilterBy 0 ''a'' Equal (Some (1::int)), Let_Or 1 0 ''b'' Equal (Some 2),
      Let_AndGroup 2 1 (Args [Filter_lit ''c'' Less (Some 3)])]
   \<and> list_all no_override (built (\<lambda>c n. 0)
     [Let_FilterBy 0 ''a'' Equal (Some (1::int)), Let_Or 1 0 ''b'' Equal (Some 2),
      Let_AndGroup 2 1 (Args [Filter_lit ''c'' Less (Some 3)])] 2)
   \<and> built (\<lambda>c n. 0)
     [Let_FilterBy 0 ''a'' Equal (Some (1::int)),
      Let_AndGroup 0 0 (Args [(Filter_lit ''b'' Equal (Some 2))
                                \<lparr>OverridePreviousFilterChainingKey := Or\<rparr>])] 0
     = [(Filter_lit ''a'' Equal (Some 1))\<lparr>ChainingKey := And\<rparr>,
        (Filter_lit ''b'' Equal (Some 2))
          \<lparr>OverridePreviousFilterChainingKey := Or, IsGroupOpen := True, IsGroupClose := True\<rparr>]
   \<and> map ChainingKey (built (\<lambda>c n. 0)
     [Let_FilterBy 0 ''a'' Equal (Some (1::int)),
      Let_AndGroup 0 0 (Args [Filter_lit ''b'' Equal (Some 2)])] 0) = [And, []]"
proof -
  let ?p1 = "[Let_FilterBy 0 ''a'' Equal (Some (1::int)), Let_Or 1 0 ''b'' Equal (Some 2),
      Let_AndGroup 2 1 (Args [Filter_lit ''c'' Less (Some 3)])]"
  let ?p2 = "[Let_FilterBy 0 ''a'' Equal (Some (1::int)),
      Let_AndGroup 0 0 (Args [(Filter_lit ''b'' Equal (Some 2))
                                \<lparr>OverridePreviousFilterChainingKey := Or\<rparr>])]"
  have h: "list_all (stmt_all no_override) ?p1"
    by (simp add: no_override_def Filter_lit_def zero_Filter_def)
  have v: "built (\<lambda>c n. 0) ?p2 0
     = [(Filter_lit ''a'' Equal (Some 1))\<lparr>ChainingKey := And\<rparr>,
        (Filter_lit ''b'' Equal (Some 2))
          \<lparr>OverridePreviousFilterChainingKey := Or, IsGroupOpen := True, IsGroupClose := True\<rparr>]"
    by (simp add: ev upt_rec)
  have e: "map erase_stmt ?p2 = [Let_FilterBy 0 ''a'' Equal (Some (1::int)),
      Let_AndGroup 0 0 (Args [Filter_lit ''b'' Equal (Some 2)])]"
    by (simp add: erase_override_def Filter_lit_def zero_Filter_def)
  from override_never_set_or_applied [where prog = ?p1 and slack = "\<lambda>c n. 0" and x = 2,
      THEN conjunct1, rule_format, OF h]
    override_never_set_or_applied [where prog = ?p2 and slack = "\<lambda>c n. 0" and x = 0,
      THEN conjunct2, THEN conjunct2]
  show ?thesis
    using h unfolding e v by (simp add: Filter_lit_def zero_Filter_def)
qed

end
